theory Spec2Isabelle
  imports Main
begin

section \<open>Strings\<close>

text \<open>
  A Python \<open>str\<close> is modelled as a \<open>string\<close>, one \<open>char\<close> per code point, so the model
  covers the code points 0 to 255. The functions below are the library operations that
  \<open>split.py\<close> calls on strings, written out for that range.
\<close>

abbreviation newline :: char where
  "newline \<equiv> CHR 0x0A"

abbreviation dquote :: char where
  "dquote \<equiv> CHR 0x22"

definition isspace :: "char \<Rightarrow> bool" where
  \<comment> \<open>the characters \<open>str.strip()\<close> removes: TAB to CR, FS to US, space, NEL, NBSP\<close>
  "isspace c = (let n = (of_char c :: nat) in
     (9 \<le> n \<and> n \<le> 13) \<or> (28 \<le> n \<and> n \<le> 32) \<or> n = 133 \<or> n = 160)"

definition is_upper :: "char \<Rightarrow> bool" where
  \<comment> \<open>the regular-expression class \<open>[A-Z]\<close>\<close>
  "is_upper c = (let n = (of_char c :: nat) in 65 \<le> n \<and> n \<le> 90)"

definition is_digit :: "char \<Rightarrow> bool" where
  \<comment> \<open>the regular-expression class \<open>[0-9]\<close>\<close>
  "is_digit c = (let n = (of_char c :: nat) in 48 \<le> n \<and> n \<le> 57)"

definition strip :: "string \<Rightarrow> string" where
  "strip s = rev (dropWhile isspace (rev (dropWhile isspace s)))"

definition lower_char :: "char \<Rightarrow> char" where
  "lower_char c = (let n = (of_char c :: nat) in
     if (65 \<le> n \<and> n \<le> 90) \<or> (192 \<le> n \<and> n \<le> 222 \<and> n \<noteq> 215)
     then char_of (n + 32) else c)"

definition lower :: "string \<Rightarrow> string" where
  "lower s = map lower_char s"

fun split_on :: "char \<Rightarrow> string \<Rightarrow> string list" where
  \<comment> \<open>\<open>s.split(sep)\<close> for a one-character separator\<close>
  "split_on sep [] = [[]]"
| "split_on sep (c # cs) =
     (if c = sep then [] # split_on sep cs
      else (case split_on sep cs of
              [] \<Rightarrow> [[c]]
            | l # ls \<Rightarrow> (c # l) # ls))"

section \<open>Errors\<close>

text \<open>
  Every exception the modelled functions can raise. An \<open>assert\<close> raises
  \<open>AssertionError\<close> with its optional message; a missing dictionary key raises
  \<open>KeyError\<close>; \<open>raise "text"\<close> raises \<open>TypeError\<close> in Python 3, since a string is
  not an exception; \<open>int\<close> raises \<open>ValueError\<close> on text that is not a number.
\<close>

datatype error =
    AssertionError "string option"
  | KeyError string
  | TypeError
  | ValueError

section \<open>The sheet parser: \<open>parse_cue\<close>\<close>

subsection \<open>\<open>unquote\<close>\<close>

definition unquote :: "string \<Rightarrow> bool \<Rightarrow> string" where
  "unquote s strp =
     (let s_stripped = strip s in
      if length s_stripped \<ge> 2 \<and> hd s_stripped = dquote \<and> last s_stripped = dquote then
        (if strp then strip (butlast (tl s_stripped)) else butlast (tl s_stripped))
      else
        (if strp then s_stripped else s))"

subsection \<open>The five line patterns\<close>

text \<open>
  \<open>re.match(p, line)\<close> for each of the five patterns, returning the groups \<open>m[1]\<close> and
  \<open>m[2]\<close>, or \<open>None\<close> when the pattern does not match. In every pattern the first
  group is followed by a space that its own character class excludes, so the greedy
  repetition can only stop at the end of the maximal run; \<open>.\<close> matches any character
  but a newline, and \<open>$\<close> matches at the end of the text or before a final newline.
\<close>

definition chomp :: "string \<Rightarrow> string" where
  \<comment> \<open>the text up to the place where \<open>$\<close> can match\<close>
  "chomp s = (if s \<noteq> [] \<and> last s = newline then butlast s else s)"

definition match_rem :: "string \<Rightarrow> (string \<times> string) option" where
  \<comment> \<open>\<open>^(REM [A-Z_]+) (.+)$\<close>\<close>
  "match_rem line =
     (let rest = drop 4 (chomp line);
          name = takeWhile (\<lambda>c. is_upper c \<or> c = CHR ''_'') rest
      in case dropWhile (\<lambda>c. is_upper c \<or> c = CHR ''_'') rest of
           [] \<Rightarrow> None
         | c # v \<Rightarrow>
             if take 4 line = ''REM '' \<and> name \<noteq> [] \<and> c = CHR '' '' \<and> v \<noteq> [] \<and> newline \<notin> set v
             then Some (''REM '' @ name, v) else None)"

definition match_file :: "string \<Rightarrow> (string \<times> string) option" where
  \<comment> \<open>\<open>^(FILE) (.+) [A-Z]{3,4}$\<close>\<close>
  "match_file line =
     (let rest = drop 5 (chomp line);
          tag = takeWhile is_upper (rev rest)
      in case dropWhile is_upper (rev rest) of
           [] \<Rightarrow> None
         | c # v \<Rightarrow>
             if take 5 line = ''FILE '' \<and> (length tag = 3 \<or> length tag = 4) \<and> c = CHR '' ''
                \<and> v \<noteq> [] \<and> newline \<notin> set v
             then Some (''FILE'', rev v) else None)"

definition match_track :: "string \<Rightarrow> (string \<times> string) option" where
  \<comment> \<open>\<open>^(TRACK) ([0-9]+) AUDIO$\<close>\<close>
  "match_track line =
     (let rest = drop 6 (chomp line);
          digits = takeWhile is_digit rest
      in if take 6 line = ''TRACK '' \<and> digits \<noteq> [] \<and> dropWhile is_digit rest = '' AUDIO''
         then Some (''TRACK'', digits) else None)"

definition match_index :: "string \<Rightarrow> (string \<times> string) option" where
  \<comment> \<open>\<open>^(INDEX) ([0-9]+) ([0-9:]{8,11})$\<close>; the third group is never read\<close>
  "match_index line =
     (let rest = drop 6 (chomp line);
          digits = takeWhile is_digit rest
      in case dropWhile is_digit rest of
           [] \<Rightarrow> None
         | c # v \<Rightarrow>
             if take 6 line = ''INDEX '' \<and> digits \<noteq> [] \<and> c = CHR '' ''
                \<and> 8 \<le> length v \<and> length v \<le> 11 \<and> list_all (\<lambda>d. is_digit d \<or> d = CHR '':'') v
             then Some (''INDEX'', digits) else None)"

definition match_generic :: "string \<Rightarrow> (string \<times> string) option" where
  \<comment> \<open>\<open>^([A-Z]+) (.+)$\<close>\<close>
  "match_generic line =
     (let key = takeWhile is_upper (chomp line)
      in case dropWhile is_upper (chomp line) of
           [] \<Rightarrow> None
         | c # v \<Rightarrow>
             if key \<noteq> [] \<and> c = CHR '' '' \<and> v \<noteq> [] \<and> newline \<notin> set v
             then Some (key, v) else None)"

definition match_line :: "string \<Rightarrow> (string \<times> string) option" where
  \<comment> \<open>the choice of the pattern by the prefix of the line, then \<open>re.match\<close>\<close>
  "match_line line =
     (if take 4 line = ''REM '' then match_rem line
      else if take 5 line = ''FILE '' then match_file line
      else if take 6 line = ''TRACK '' then match_track line
      else if take 6 line = ''INDEX '' then match_index line
      else match_generic line)"

subsection \<open>\<open>int\<close>\<close>

definition digit_val :: "char \<Rightarrow> nat" where
  "digit_val c = of_char c - 48"

definition py_int :: "string \<Rightarrow> error + nat" where
  \<comment> \<open>\<open>int(val)\<close> on decimal digits, of any length; the parser calls it on text matched by
      \<open>[0-9]+\<close> only\<close>
  "py_int s =
     (if s \<noteq> [] \<and> list_all is_digit s
      then Inr (foldl (\<lambda>n c. 10 * n + digit_val c) 0 s)
      else Inl ValueError)"

subsection \<open>The dictionaries and the parser state\<close>

text \<open>
  The parser mutates dictionaries through the variable \<open>current_dict\<close>, which is bound
  first to the object \<open>disc_dict\<close> and later to the newest element of \<open>track_list\<close>. The
  model keeps the dictionaries in a store, a variable holding the address of its object:
  \<open>disc_dict.copy()\<close> allocates a new address, and an assignment \<open>current_dict[key] = val\<close>
  updates the store at the address \<open>current_dict\<close> holds.
\<close>

type_synonym dict = "string \<rightharpoonup> string"

type_synonym addr = nat

record pstate =
  heap :: "addr \<Rightarrow> dict"
  next_addr :: addr
  track_list :: "addr list"
  current_dict :: addr

definition disc_dict :: addr where
  "disc_dict = 0"

definition init_state :: pstate where
  "init_state = \<lparr>heap = (\<lambda>_. Map.empty), next_addr = 1, track_list = [], current_dict = disc_dict\<rparr>"

definition setitem :: "pstate \<Rightarrow> string \<Rightarrow> string \<Rightarrow> pstate" where
  \<comment> \<open>\<open>current_dict[key] = val\<close>\<close>
  "setitem s key val = s\<lparr>heap := (heap s)(current_dict s := (heap s (current_dict s))(key \<mapsto> val))\<rparr>"

definition new_track :: "pstate \<Rightarrow> pstate" where
  \<comment> \<open>the copy of \<open>disc_dict\<close> without its \<open>TITLE\<close>, made the current dictionary and appended\<close>
  "new_track s =
     (let a = next_addr s;
          track_dict = heap s disc_dict;
          track_dict = (if ''TITLE'' \<in> dom track_dict then track_dict(''TITLE'' := None) else track_dict)
      in s\<lparr>heap := (heap s)(a := track_dict), next_addr := Suc a,
            current_dict := a, track_list := track_list s @ [a]\<rparr>)"

subsection \<open>One iteration of the loop over the lines\<close>

definition process_line :: "string option \<Rightarrow> string \<Rightarrow> pstate \<Rightarrow> error + pstate" where
  \<comment> \<open>the first argument is \<open>FLAGS.disc_performer_override\<close>\<close>
  "process_line ovr raw s =
     (let line = strip raw in
      if length line \<le> 0 then Inr s
      else case match_line line of
        None \<Rightarrow> Inl (AssertionError (Some (''Line parse failed: '' @ line)))
      | Some (key, m2) \<Rightarrow>
          let val = unquote m2 True;
              val = (case ovr of
                       Some p \<Rightarrow> if key = ''PERFORMER'' \<and> length (track_list s) = 0 then p else val
                     | None \<Rightarrow> val)
          in if length val \<le> 0 then Inr s
             else if key = ''INDEX'' then Inr s
             else if key = ''TRACK'' then
               (case py_int val of
                  Inl e \<Rightarrow> Inl e
                | Inr track_no \<Rightarrow>
                    if track_no \<noteq> length (track_list s) + 1 then Inl (AssertionError None)
                    else Inr (new_track s))
             else if key = ''TITLE'' then
               Inr (setitem (setitem s key val) ''TITLE_RAW'' (unquote m2 False))
             else Inr (setitem s key val))"

fun parse_lines :: "string option \<Rightarrow> string list \<Rightarrow> pstate \<Rightarrow> error + pstate" where
  "parse_lines ovr [] s = Inr s"
| "parse_lines ovr (l # ls) s =
     (case process_line ovr l s of
        Inl e \<Rightarrow> Inl e
      | Inr s' \<Rightarrow> parse_lines ovr ls s')"

subsection \<open>The result\<close>

text \<open>
  The returned dictionary holds strings under the keys the sheet wrote and the list of the
  track dictionaries under \<open>TRACK_LIST\<close>.
\<close>

datatype pyval = Str string | TrackList "dict list"

type_synonym cue_dict = "string \<rightharpoonup> pyval"

definition finalize :: "pstate \<Rightarrow> error + cue_dict" where
  \<comment> \<open>the check that every track has a title, then \<open>disc_dict["TRACK_LIST"] = track_list\<close>\<close>
  "finalize s =
     (if list_all (\<lambda>t. ''TITLE'' \<in> dom (heap s t)) (track_list s)
      then Inr ((map_option Str \<circ> heap s disc_dict)
                  (''TRACK_LIST'' \<mapsto> TrackList (map (heap s) (track_list s))))
      else Inl (AssertionError None))"

definition parse_cue :: "string option \<Rightarrow> string \<Rightarrow> error + cue_dict" where
  "parse_cue ovr cue_content =
     (case parse_lines ovr (split_on newline cue_content) init_state of
        Inl e \<Rightarrow> Inl e
      | Inr s \<Rightarrow> finalize s)"

section \<open>The file resolver\<close>

subsection \<open>Paths and the file system\<close>

text \<open>
  A \<open>Path\<close> is the list of its components below the root of the file system. The file
  system is what the functions read of it: which paths are regular files, the names a
  directory holds in the order \<open>iterdir\<close> yields them, the working directory that relative
  paths start from, and what \<open>resolve\<close> makes of a path.
\<close>

type_synonym path = "string list"

record filesystem =
  is_file :: "path \<Rightarrow> bool"
  listdir :: "path \<Rightarrow> string list"
  cwd :: path
  resolve :: "path \<Rightarrow> path"

definition iterdir :: "filesystem \<Rightarrow> path \<Rightarrow> path list" where
  "iterdir fs d = map (\<lambda>n. d @ [n]) (listdir fs d)"

definition parts :: "string \<Rightarrow> string list" where
  "parts s = filter (\<lambda>c. c \<noteq> [] \<and> c \<noteq> ''.'') (split_on (CHR ''/'') s)"

definition joinpath :: "path \<Rightarrow> string \<Rightarrow> path" where
  \<comment> \<open>\<open>p / s\<close>: an absolute \<open>s\<close> replaces \<open>p\<close>\<close>
  "joinpath p s = (if s \<noteq> [] \<and> hd s = CHR ''/'' then parts s else p @ parts s)"

definition name :: "path \<Rightarrow> string" where
  "name p = (if p = [] then [] else last p)"

definition parent :: "path \<Rightarrow> path" where
  "parent p = butlast p"

definition suffix :: "path \<Rightarrow> string" where
  \<comment> \<open>\<open>Path.suffix\<close>: from the last dot of the name, unless that dot is the first or the
      last character of the name\<close>
  "suffix p =
     (let ext = rev (takeWhile (\<lambda>c. c \<noteq> CHR ''.'') (rev (name p)))
      in if CHR ''.'' \<in> set (name p) \<and> ext \<noteq> [] \<and> Suc (length ext) < length (name p)
         then CHR ''.'' # ext else [])"

definition stem :: "path \<Rightarrow> string" where
  "stem p = take (length (name p) - length (suffix p)) (name p)"

definition in_rootdir :: "filesystem \<Rightarrow> path option \<Rightarrow> string \<Rightarrow> path option" where
  \<comment> \<open>the path \<open>rootdir / f\<close> when \<open>rootdir is not None\<close> and it is a file\<close>
  "in_rootdir fs rootdir f =
     (case rootdir of
        None \<Rightarrow> None
      | Some r \<Rightarrow> if is_file fs (joinpath r f) then Some (joinpath r f) else None)"

subsection \<open>\<open>determine_cue\<close>\<close>

definition determine_cue :: "filesystem \<Rightarrow> string option \<Rightarrow> path option \<Rightarrow> error + path" where
  \<comment> \<open>the second argument is \<open>FLAGS.cue\<close>\<close>
  "determine_cue fs flag_cue rootdir =
     (case flag_cue of
        None \<Rightarrow>
          (case rootdir of
             None \<Rightarrow> Inl (AssertionError (Some ''Neither --input nor --cue specified.''))
           | Some r \<Rightarrow>
               (let cues = filter (\<lambda>x. is_file fs x \<and> lower (suffix x) = ''.cue'') (iterdir fs r)
                in if \<not> length cues \<ge> 1 then Inl (AssertionError (Some ''No cue found in --input''))
                   else Inr (resolve fs (hd cues))))
      | Some c \<Rightarrow>
          (case rootdir of
             Some r \<Rightarrow>
               if \<not> is_file fs (joinpath r c) then Inl (AssertionError (Some ''Invalid --cue file''))
               else Inr (resolve fs (joinpath r c))
           | None \<Rightarrow>
               if \<not> is_file fs (joinpath (cwd fs) c) then Inl (AssertionError (Some ''Invalid --cue file''))
               else Inr (resolve fs (joinpath (cwd fs) c))))"

subsection \<open>\<open>determine_wav\<close>\<close>

definition AUDIO_SUFFIX :: "string list" where
  "AUDIO_SUFFIX = split_on (CHR '' '') ''.wav .ape .flac .tta''"

definition getitem :: "cue_dict \<Rightarrow> string \<Rightarrow> error + string" where
  \<comment> \<open>\<open>cue_dict[key]\<close> where a string is needed: joining a path with a list is a \<open>TypeError\<close>\<close>
  "getitem d key =
     (case d key of
        None \<Rightarrow> Inl (KeyError key)
      | Some (Str v) \<Rightarrow> Inr v
      | Some (TrackList ts) \<Rightarrow> Inl TypeError)"

definition scan_wav :: "filesystem \<Rightarrow> path \<Rightarrow> path list" where
  "scan_wav fs d = filter (\<lambda>x. is_file fs x \<and> lower (suffix x) \<in> set AUDIO_SUFFIX) (iterdir fs d)"

definition search_wav :: "filesystem \<Rightarrow> path option \<Rightarrow> path \<Rightarrow> error + path" where
  \<comment> \<open>the two directory scans that end \<open>determine_wav\<close>\<close>
  "search_wav fs rootdir cue_path =
     (let in_cuedir =
        (let wavs = scan_wav fs (parent cue_path)
         in if length wavs > 1 then Inl TypeError
            else if length wavs = 1 then Inr (resolve fs (hd wavs))
            else Inl TypeError)
      in case rootdir of
           None \<Rightarrow> in_cuedir
         | Some r \<Rightarrow>
             (let wavs = scan_wav fs r
              in if length wavs > 1 then Inl TypeError
                 else if length wavs = 1 then Inr (resolve fs (hd wavs))
                 else in_cuedir))"

definition determine_wav ::
    "filesystem \<Rightarrow> string option \<Rightarrow> path option \<Rightarrow> path \<Rightarrow> cue_dict \<Rightarrow> error + path" where
  \<comment> \<open>the second argument is \<open>FLAGS.wav\<close>\<close>
  "determine_wav fs flag_wav rootdir cue_path cue_dict =
     (case flag_wav of
        Some w \<Rightarrow>
          (case in_rootdir fs rootdir w of
             Some f \<Rightarrow> Inr (resolve fs f)
           | None \<Rightarrow>
               if is_file fs (joinpath (cwd fs) w) then Inr (resolve fs (joinpath (cwd fs) w))
               else if is_file fs (joinpath (parent cue_path) w)
                 then Inr (resolve fs (joinpath (parent cue_path) w))
               else Inl TypeError)
      | None \<Rightarrow>
          (let in_cuedir =
             (case getitem cue_dict ''FILE'' of
                Inl e \<Rightarrow> Inl e
              | Inr v \<Rightarrow>
                  if is_file fs (joinpath (parent cue_path) v)
                  then Inr (resolve fs (joinpath (parent cue_path) v))
                  else search_wav fs rootdir cue_path)
           in case rootdir of
                None \<Rightarrow> in_cuedir
              | Some r \<Rightarrow>
                  (case getitem cue_dict ''FILE'' of
                     Inl e \<Rightarrow> Inl e
                   | Inr v \<Rightarrow>
                       if is_file fs (joinpath r v) then Inr (resolve fs (joinpath r v))
                       else in_cuedir)))"

subsection \<open>\<open>determine_cover\<close>\<close>

definition COVER_SUFFIX :: "string list" where
  "COVER_SUFFIX = split_on (CHR '' '') ''.jpg .png .tif .tiff''"

definition PRIORITY_COVER_NAMES :: "string list" where
  "PRIORITY_COVER_NAMES =
     concat (map (\<lambda>nm. map (\<lambda>ext. nm @ ext) COVER_SUFFIX) [''cover'', ''folder''])"

fun scan_cover :: "filesystem \<Rightarrow> path list \<Rightarrow> path list \<Rightarrow> path + path list" where
  \<comment> \<open>the loop over a directory: \<open>Inl x\<close> is the \<open>return\<close> from inside the loop, \<open>Inr\<close> the
      list \<open>pics\<close> after it\<close>
  "scan_cover fs [] pics = Inr pics"
| "scan_cover fs (x # xs) pics =
     (if is_file fs x then
        (if lower (name x) \<in> set PRIORITY_COVER_NAMES then Inl x
         else if lower (suffix x) \<in> set COVER_SUFFIX then scan_cover fs xs (pics @ [x])
         else scan_cover fs xs pics)
      else scan_cover fs xs pics)"

definition determine_cover ::
    "((path \<Rightarrow> string) \<Rightarrow> path list \<Rightarrow> path list) \<Rightarrow> filesystem \<Rightarrow> string option \<Rightarrow>
     path option \<Rightarrow> path \<Rightarrow> error + path option" where
  \<comment> \<open>the first argument is \<open>natsorted\<close> of the library natsort, taking the key function and
      the list; the third is \<open>FLAGS.cover\<close>\<close>
  "determine_cover natsorted fs flag_cover rootdir cue_path =
     (case flag_cover of
        Some c \<Rightarrow>
          if c = [] then Inr None
          else
            (case in_rootdir fs rootdir c of
               Some f \<Rightarrow> Inr (Some (resolve fs f))
             | None \<Rightarrow>
                 if is_file fs (joinpath (cwd fs) c) then Inr (Some (resolve fs (joinpath (cwd fs) c)))
                 else if is_file fs (joinpath (parent cue_path) c)
                   then Inr (Some (resolve fs (joinpath (parent cue_path) c)))
                 else Inl TypeError)
      | None \<Rightarrow>
          (case (case rootdir of None \<Rightarrow> Inr [] | Some r \<Rightarrow> scan_cover fs (iterdir fs r) []) of
             Inl x \<Rightarrow> Inr (Some (resolve fs x))
           | Inr pics \<Rightarrow>
               (case (if length pics = 0 then scan_cover fs (iterdir fs (parent cue_path)) pics
                      else Inr pics) of
                  Inl x \<Rightarrow> Inr (Some (resolve fs x))
                | Inr pics \<Rightarrow>
                    (let pics = (if length pics > 1 then natsorted (\<lambda>x. lower (stem x)) pics else pics)
                     in case pics of
                          [] \<Rightarrow> Inr None
                        | p # _ \<Rightarrow> Inr (Some (resolve fs p))))))"

section \<open>Notions of the specification\<close>

text \<open>
  The directive a raw line of the sheet is, as the parser classifies it: its key, and for
  a \<open>TRACK\<close> directive the number it declares.
\<close>

definition line_key :: "string \<Rightarrow> string option" where
  "line_key raw = map_option fst (match_line (strip raw))"

definition track_number :: "string \<Rightarrow> nat option" where
  "track_number raw =
     (case match_line (strip raw) of
        None \<Rightarrow> None
      | Some (key, m2) \<Rightarrow>
          if key = ''TRACK'' then (case py_int m2 of Inl e \<Rightarrow> None | Inr n \<Rightarrow> Some n) else None)"

definition declared_numbers :: "string list \<Rightarrow> nat list" where
  \<comment> \<open>the numbers the \<open>TRACK\<close> directives of a sheet declare, in the order of the lines\<close>
  "declared_numbers lines = List.map_filter track_number lines"

definition title_value :: "string \<Rightarrow> string option" where
  \<comment> \<open>the trimmed and unquoted value of a \<open>TITLE\<close> directive\<close>
  "title_value raw =
     (case match_line (strip raw) of
        None \<Rightarrow> None
      | Some (key, m2) \<Rightarrow> if key = ''TITLE'' then Some (unquote m2 True) else None)"

definition is_title_line :: "string \<Rightarrow> bool" where
  \<comment> \<open>the line is a \<open>TITLE\<close> directive\<close>
  "is_title_line raw = (line_key raw = Some ''TITLE'')"

definition stores_title :: "string \<Rightarrow> bool" where
  \<comment> \<open>the line is a \<open>TITLE\<close> directive whose trimmed and unquoted value is not empty\<close>
  "stores_title raw = (case title_value raw of None \<Rightarrow> False | Some v \<Rightarrow> v \<noteq> [])"

fun blocks_with :: "(string \<Rightarrow> bool) \<Rightarrow> bool \<Rightarrow> string list \<Rightarrow> bool" where
  \<comment> \<open>every track block of the lines, from a \<open>TRACK\<close> directive to the next one, has a line
      of the given kind; the flag says whether the block the lines start in needs none
      any more\<close>
  "blocks_with P ok [] = ok"
| "blocks_with P ok (l # ls) =
     (if track_number l \<noteq> None then ok \<and> blocks_with P False ls
      else if P l then blocks_with P True ls
      else blocks_with P ok ls)"

definition tracks_of :: "pstate \<Rightarrow> dict list" where
  \<comment> \<open>the track dictionaries, read from the store\<close>
  "tracks_of s = map (heap s) (track_list s)"

section \<open>Example sheets and directories\<close>

definition sheet123 :: string where
  \<comment> \<open>three tracks, numbered 1, 2, 3\<close>
  "sheet123 = ''TRACK 01 AUDIO\<newline>  TITLE a\<newline>TRACK 02 AUDIO\<newline>  TITLE b\<newline>TRACK 03 AUDIO\<newline>  TITLE c\<newline>''"

definition sheet13 :: string where
  \<comment> \<open>two tracks, numbered 1 and 3\<close>
  "sheet13 = ''TRACK 01 AUDIO\<newline>  TITLE a\<newline>TRACK 03 AUDIO\<newline>  TITLE b\<newline>''"

definition sheetAB :: string where
  \<comment> \<open>performer A for the disc, performer B inside the first of two tracks\<close>
  "sheetAB = ''PERFORMER '' @ [dquote] @ ''A'' @ [dquote] @ ''\<newline>TRACK 01 AUDIO\<newline>TITLE x\<newline>PERFORMER ''
       @ [dquote] @ ''B'' @ [dquote] @ ''\<newline>TRACK 02 AUDIO\<newline>TITLE y''"

definition sheet_empty_title :: string where
  \<comment> \<open>one track, whose \<open>TITLE\<close> line has the value \<open>""\<close>\<close>
  "sheet_empty_title = ''TRACK 01 AUDIO\<newline>TITLE '' @ [dquote, dquote]"

definition fs_of :: "path \<Rightarrow> string list \<Rightarrow> filesystem" where
  \<comment> \<open>a file system with one directory holding the named regular files, in this order\<close>
  "fs_of d names =
     \<lparr>is_file = (\<lambda>p. p \<in> set (map (\<lambda>n. d @ [n]) names)),
      listdir = (\<lambda>p. if p = d then names else []),
      cwd = [],
      resolve = (\<lambda>p. p)\<rparr>"

definition fs_two_cues :: filesystem where
  "fs_two_cues = fs_of [''album''] [''a.cue'', ''b.cue'']"

definition fs_cover :: filesystem where
  "fs_cover = fs_of [''album''] [''random.png'', ''folder.jpg'']"

definition fs_cover_rev :: filesystem where
  "fs_cover_rev = fs_of [''album''] [''folder.jpg'', ''random.png'']"

definition fs_one_flac :: filesystem where
  "fs_one_flac = fs_of [''album''] [''disc.cue'', ''a.flac'']"

definition natsorted_id :: "(path \<Rightarrow> string) \<Rightarrow> path list \<Rightarrow> path list" where
  \<comment> \<open>a stand-in for \<open>natsorted\<close> where the order of the result does not matter\<close>
  "natsorted_id key xs = xs"

section \<open>Invariant of the parser state\<close>

text \<open>
  The shape of the store in every state the parser reaches: the track dictionaries are
  objects of their own, allocated below \<open>next_addr\<close>, none of them the object
  \<open>disc_dict\<close>, and \<open>current_dict\<close> is the newest of them, or \<open>disc_dict\<close> before
  the first track.
\<close>

definition wf_state :: "pstate \<Rightarrow> bool" where
  "wf_state s \<longleftrightarrow>
     disc_dict \<notin> set (track_list s) \<and> distinct (track_list s) \<and> disc_dict < next_addr s
     \<and> (\<forall>a\<in>set (track_list s). a < next_addr s)
     \<and> current_dict s = (if track_list s = [] then disc_dict else last (track_list s))"

section \<open>Facts about strings and the line patterns\<close>

lemma chomp_cases: "line = chomp line \<or> line = chomp line @ [newline]"
  by (cases line rule: rev_cases) (auto simp: chomp_def)

lemma take_chomp: "n \<le> length (chomp line) \<Longrightarrow> take n line = take n (chomp line)"
proof -
  assume n: "n \<le> length (chomp line)"
  from chomp_cases [of line] show ?thesis
  proof
    assume "line = chomp line" then show ?thesis by simp
  next
    assume "line = chomp line @ [newline]"
    then have "take n line = take n (chomp line @ [newline])" by simp
    with n show ?thesis by simp
  qed
qed

lemma match_generic_SomeD:
  assumes "match_generic line = Some (key, m2)"
  shows "key \<noteq> [] \<and> list_all is_upper key \<and> chomp line = key @ CHR '' '' # m2 \<and> m2 \<noteq> []"
proof -
  from assms obtain c where
    d: "dropWhile is_upper (chomp line) = c # m2" and k: "key = takeWhile is_upper (chomp line)"
    and c: "key \<noteq> []" "c = CHR '' ''" "m2 \<noteq> []"
    by (auto simp: match_generic_def Let_def split: list.splits if_splits)
  have "chomp line = takeWhile is_upper (chomp line) @ dropWhile is_upper (chomp line)"
    by simp
  with d k c have "chomp line = key @ CHR '' '' # m2" by simp
  moreover have "list_all is_upper key"
    unfolding k list_all_iff by (auto dest: set_takeWhileD)
  ultimately show ?thesis using c by simp
qed


lemma match_generic_prefix:
  assumes "match_generic line = Some (key, m2)"
  shows "take (Suc (length key)) line = key @ '' ''"
proof -
  from match_generic_SomeD [OF assms] have e: "chomp line = key @ CHR '' '' # m2" by simp
  then have "Suc (length key) \<le> length (chomp line)" by simp
  then have "take (Suc (length key)) line = take (Suc (length key)) (chomp line)"
    by (rule take_chomp)
  with e show ?thesis by simp
qed

lemma match_track_SomeD:
  "match_track line = Some (key, m2) \<Longrightarrow> key = ''TRACK'' \<and> m2 \<noteq> [] \<and> list_all is_digit m2"
  unfolding match_track_def Let_def
  by (auto simp: list_all_iff split: if_splits dest: set_takeWhileD)

lemma match_rem_SomeD:
  "match_rem line = Some (key, m2) \<Longrightarrow> \<exists>n. key = ''REM '' @ n"
  unfolding match_rem_def Let_def
  by (simp split: if_splits list.splits) blast

lemma match_file_SomeD:
  "match_file line = Some (key, m2) \<Longrightarrow> key = ''FILE''"
  unfolding match_file_def Let_def
  by (simp split: if_splits list.splits)

lemma match_index_SomeD:
  "match_index line = Some (key, m2) \<Longrightarrow> key = ''INDEX''"
  unfolding match_index_def Let_def
  by (simp split: if_splits list.splits)


lemma match_line_cases:
  assumes "match_line line = Some (key, m2)"
  shows "(\<exists>n. key = ''REM '' @ n)
       \<or> (key = ''FILE'' \<and> take 5 line = ''FILE '')
       \<or> (key = ''TRACK'' \<and> m2 \<noteq> [] \<and> list_all is_digit m2)
       \<or> key = ''INDEX''
       \<or> (key \<noteq> [] \<and> list_all is_upper key \<and> key \<noteq> ''FILE'' \<and> key \<noteq> ''TRACK'' \<and> key \<noteq> ''INDEX'')"
proof -
  consider (c_rem) "match_rem line = Some (key, m2)"
    | (c_file) "take 5 line = ''FILE ''" "match_file line = Some (key, m2)"
    | (c_track) "match_track line = Some (key, m2)"
    | (c_index) "match_index line = Some (key, m2)"
    | (c_generic) "take 5 line \<noteq> ''FILE ''" "take 6 line \<noteq> ''TRACK ''" "take 6 line \<noteq> ''INDEX ''"
        "match_generic line = Some (key, m2)"
    using assms unfolding match_line_def by (metis (full_types))
  then show ?thesis
  proof cases
    case c_rem
    then show ?thesis using match_rem_SomeD by blast
  next
    case c_file
    then show ?thesis using match_file_SomeD by blast
  next
    case c_track
    then show ?thesis using match_track_SomeD by blast
  next
    case c_index
    then show ?thesis using match_index_SomeD by blast
  next
    case c_generic
    note p = match_generic_prefix [OF c_generic(4)]
    have "key \<noteq> ''FILE''"
    proof
      assume "key = ''FILE''"
      with p have "take 5 line = ''FILE ''" by (simp add: eval_nat_numeral)
      with c_generic(1) show False by simp
    qed
    moreover have "key \<noteq> ''TRACK''"
    proof
      assume "key = ''TRACK''"
      with p have "take 6 line = ''TRACK ''" by (simp add: eval_nat_numeral)
      with c_generic(2) show False by simp
    qed
    moreover have "key \<noteq> ''INDEX''"
    proof
      assume "key = ''INDEX''"
      with p have "take 6 line = ''INDEX ''" by (simp add: eval_nat_numeral)
      with c_generic(3) show False by simp
    qed
    ultimately show ?thesis using match_generic_SomeD [OF c_generic(4)] by simp
  qed
qed

lemma upper_no_underscore: "list_all is_upper key \<Longrightarrow> CHR ''_'' \<notin> set key"
  by (auto simp: list_all_iff is_upper_def)

lemma dropWhile_rev_last: "s \<noteq> [] \<Longrightarrow> \<not> P (last s) \<Longrightarrow> dropWhile P (rev s) = rev s"
  by (cases s rule: rev_cases) auto

lemma dropWhile_hd: "s \<noteq> [] \<Longrightarrow> \<not> P (hd s) \<Longrightarrow> dropWhile P s = s"
  by (cases s) auto

lemma strip_id: "s \<noteq> [] \<Longrightarrow> \<not> isspace (hd s) \<Longrightarrow> \<not> isspace (last s) \<Longrightarrow> strip s = s"
  by (simp add: strip_def dropWhile_hd dropWhile_rev_last)

lemma digit_not_space: "is_digit c \<Longrightarrow> \<not> isspace c"
  by (auto simp: is_digit_def isspace_def Let_def)

lemma digit_not_dquote: "is_digit c \<Longrightarrow> c \<noteq> dquote"
  by (auto simp: is_digit_def)

lemma strip_digits: "list_all is_digit ds \<Longrightarrow> strip ds = ds"
proof (cases "ds = []")
  case True
  then show ?thesis by (simp add: strip_def)
next
  case False
  assume d: "list_all is_digit ds"
  from False d have "is_digit (hd ds)" "is_digit (last ds)"
    by (auto simp: list_all_iff)
  with False show ?thesis
    by (simp add: strip_id digit_not_space)
qed

lemma unquote_digits: "list_all is_digit ds \<Longrightarrow> unquote ds b = ds"
  by (cases ds) (auto simp: unquote_def strip_digits digit_not_dquote)

lemma match_line_Nil: "match_line [] = None"
  by (simp add: match_line_def match_generic_def chomp_def)

lemma track_numberD:
  assumes "track_number raw = Some n"
  shows "\<exists>m2. match_line (strip raw) = Some (''TRACK'', m2) \<and> py_int m2 = Inr n
           \<and> m2 \<noteq> [] \<and> list_all is_digit m2"
proof -
  from assms obtain m2 where m: "match_line (strip raw) = Some (''TRACK'', m2)" and p: "py_int m2 = Inr n"
    by (auto simp: track_number_def split: option.splits if_splits sum.splits)
  from match_line_cases [OF m] have "m2 \<noteq> [] \<and> list_all is_digit m2"
    by (auto simp: list_all_iff is_upper_def)
  with m p show ?thesis by blast
qed

lemma track_number_NoneD:
  assumes "track_number raw = None" and "match_line (strip raw) = Some (key, m2)"
  shows "key \<noteq> ''TRACK''"
proof
  assume k: "key = ''TRACK''"
  with assms(2) match_line_cases [of "strip raw" key m2] have "m2 \<noteq> [] \<and> list_all is_digit m2"
    by (auto simp: list_all_iff is_upper_def)
  then have "\<exists>n. py_int m2 = Inr n" by (simp add: py_int_def)
  with assms k show False by (auto simp: track_number_def)
qed

lemma process_line_track:
  assumes "track_number raw = Some n"
  shows "process_line ovr raw s =
           (if n = length (track_list s) + 1 then Inr (new_track s) else Inl (AssertionError None))"
proof -
  from track_numberD [OF assms] obtain m2 where
    m: "match_line (strip raw) = Some (''TRACK'', m2)" and p: "py_int m2 = Inr n"
    and d: "m2 \<noteq> []" "list_all is_digit m2" by blast
  from m have ne: "strip raw \<noteq> []" using match_line_Nil by auto
  from d have u: "unquote m2 True = m2" by (simp add: unquote_digits)
  show ?thesis
    using ne m p d u by (simp add: process_line_def Let_def split: option.splits)
qed

lemma process_line_other:
  assumes "track_number raw = None" and "process_line ovr raw s = Inr s'"
  shows "s' = s
       \<or> (\<exists>key val. line_key raw = Some key \<and> key \<noteq> ''TITLE'' \<and> key \<noteq> ''TRACK'' \<and> s' = setitem s key val)
       \<or> (\<exists>m2. match_line (strip raw) = Some (''TITLE'', m2) \<and> unquote m2 True \<noteq> []
             \<and> s' = setitem (setitem s ''TITLE'' (unquote m2 True)) ''TITLE_RAW'' (unquote m2 False))"
proof (cases "match_line (strip raw)")
  case None
  with assms(2) show ?thesis
    by (simp add: process_line_def Let_def split: if_splits)
next
  case (Some km)
  obtain key m2 where km: "km = (key, m2)" by (cases km)
  with Some have m: "match_line (strip raw) = Some (key, m2)" by simp
  from track_number_NoneD [OF assms(1) m] have nt: "key \<noteq> ''TRACK''" .
  have lk: "line_key raw = Some key" using m by (simp add: line_key_def)
  show ?thesis
  proof (cases "key = ''TITLE''")
    case True
    with assms(2) m show ?thesis
      by (auto simp: process_line_def Let_def split: if_splits option.splits)
  next
    case False
    with assms(2) m nt lk show ?thesis
      by (auto simp: process_line_def Let_def split: if_splits option.splits)
  qed
qed

section \<open>Facts about the parser state\<close>

lemma setitem_simps [simp]:
  "track_list (setitem s k v) = track_list s"
  "current_dict (setitem s k v) = current_dict s"
  "next_addr (setitem s k v) = next_addr s"
  "heap (setitem s k v) a = (if a = current_dict s then (heap s a)(k \<mapsto> v) else heap s a)"
  by (simp_all add: setitem_def)

lemma new_track_simps [simp]:
  "track_list (new_track s) = track_list s @ [next_addr s]"
  "current_dict (new_track s) = next_addr s"
  "next_addr (new_track s) = Suc (next_addr s)"
  by (simp_all add: new_track_def Let_def)

lemma heap_new_track [simp]:
  "heap (new_track s) a =
     (if a = next_addr s then (heap s disc_dict)(''TITLE'' := None) else heap s a)"
proof -
  have "(if ''TITLE'' \<in> dom (heap s disc_dict) then (heap s disc_dict)(''TITLE'' := None)
         else heap s disc_dict) = (heap s disc_dict)(''TITLE'' := None)"
    by (auto simp: fun_eq_iff)
  then show ?thesis by (simp add: new_track_def Let_def)
qed

lemma wf_init: "wf_state init_state"
  by (simp add: wf_state_def init_state_def disc_dict_def)

lemma wf_setitem: "wf_state s \<Longrightarrow> wf_state (setitem s k v)"
  by (simp add: wf_state_def)

lemma wf_new_track: "wf_state s \<Longrightarrow> wf_state (new_track s)"
  by (auto simp: wf_state_def)

lemma wf_process_line:
  assumes "wf_state s" and "process_line ovr raw s = Inr s'"
  shows "wf_state s'"
proof (cases "track_number raw")
  case None
  from process_line_other [OF None assms(2)] assms(1) show ?thesis
    by (auto intro: wf_setitem)
next
  case (Some n)
  with assms show ?thesis
    by (auto simp: process_line_track wf_new_track split: if_splits)
qed

lemma wf_parse_lines:
  "wf_state s \<Longrightarrow> parse_lines ovr ls s = Inr s' \<Longrightarrow> wf_state s'"
proof (induction ls arbitrary: s)
  case Nil
  then show ?case by simp
next
  case (Cons l ls)
  then show ?case
    by (auto split: sum.splits dest: wf_process_line)
qed

lemma parse_lines_append:
  "parse_lines ovr (xs @ ys) s =
     (case parse_lines ovr xs s of Inl e \<Rightarrow> Inl e | Inr s' \<Rightarrow> parse_lines ovr ys s')"
  by (induction xs arbitrary: s) (auto split: sum.splits)

lemma track_list_mono_step:
  assumes "process_line ovr raw s = Inr s'"
  shows "length (track_list s) \<le> length (track_list s')"
proof (cases "track_number raw")
  case None
  from process_line_other [OF None assms] show ?thesis by auto
next
  case (Some n)
  with assms show ?thesis by (auto simp: process_line_track split: if_splits)
qed

lemma track_list_mono:
  "parse_lines ovr ls s = Inr s' \<Longrightarrow> length (track_list s) \<le> length (track_list s')"
proof (induction ls arbitrary: s)
  case Nil
  then show ?case by simp
next
  case (Cons l ls)
  from Cons.prems obtain s1 where 1: "process_line ovr l s = Inr s1" and 2: "parse_lines ovr ls s1 = Inr s'"
    by (auto split: sum.splits)
  from track_list_mono_step [OF 1] Cons.IH [OF 2] show ?case by simp
qed

lemma declared_numbers_Cons:
  "declared_numbers (l # ls) =
     (case track_number l of None \<Rightarrow> declared_numbers ls | Some n \<Rightarrow> n # declared_numbers ls)"
  by (simp add: declared_numbers_def split: option.splits)

lemma declared_numbers_parse_lines:
  "parse_lines ovr ls s = Inr s' \<Longrightarrow>
     declared_numbers ls = [Suc (length (track_list s))..<Suc (length (track_list s'))]"
proof (induction ls arbitrary: s)
  case Nil
  then show ?case by (simp add: declared_numbers_def)
next
  case (Cons l ls)
  from Cons.prems obtain s1 where 1: "process_line ovr l s = Inr s1" and 2: "parse_lines ovr ls s1 = Inr s'"
    by (auto split: sum.splits)
  note IH = Cons.IH [OF 2]
  show ?case
  proof (cases "track_number l")
    case None
    from process_line_other [OF None 1] have "track_list s1 = track_list s" by auto
    with IH None show ?thesis by (simp add: declared_numbers_Cons)
  next
    case (Some n)
    with 1 have n: "n = Suc (length (track_list s))" and s1: "s1 = new_track s"
      by (auto simp: process_line_track split: if_splits)
    from track_list_mono [OF 2] s1 have le: "Suc (length (track_list s)) \<le> length (track_list s')"
      by simp
    have "declared_numbers (l # ls) = n # declared_numbers ls"
      using Some by (simp add: declared_numbers_Cons)
    also have "\<dots> = Suc (length (track_list s)) # [Suc (Suc (length (track_list s)))..<Suc (length (track_list s'))]"
      using IH n s1 by simp
    also have "\<dots> = [Suc (length (track_list s))..<Suc (length (track_list s'))]"
      using le by (simp add: upt_conv_Cons)
    finally show ?thesis .
  qed
qed

lemma parse_cue_InrD:
  assumes "parse_cue ovr text = Inr d"
  shows "\<exists>s. parse_lines ovr (split_on newline text) init_state = Inr s
             \<and> list_all (\<lambda>t. ''TITLE'' \<in> dom (heap s t)) (track_list s)
             \<and> d = (map_option Str \<circ> heap s disc_dict)(''TRACK_LIST'' \<mapsto> TrackList (tracks_of s))"
  using assms by (auto simp: parse_cue_def finalize_def tracks_of_def split: sum.splits if_splits)

section \<open>Evaluation of the definitions on concrete input\<close>

lemmas match_defs = match_line_def match_rem_def match_file_def match_track_def match_index_def
  match_generic_def chomp_def is_upper_def is_digit_def

lemmas string_defs = strip_def isspace_def unquote_def

section \<open>Unquoting\<close>

lemma unquote_quoted:
  "strip m2 = dquote # inner @ [dquote] \<Longrightarrow>
     unquote m2 True = strip inner \<and> unquote m2 False = inner"
  by (simp add: unquote_def)

text \<open>
  C4, as the code has it. A \<open>TITLE\<close> directive whose value, trimmed, is \<open>inner\<close> between two
  double quotes, and whose \<open>inner\<close> is not all whitespace, stores the trimmed \<open>inner\<close>
  under \<open>TITLE\<close> and \<open>inner\<close> itself under \<open>TITLE_RAW\<close> in the current dictionary. The
  hypothesis that the trimmed \<open>inner\<close> is not empty cannot be dropped: the parser skips a
  line whose value is empty.
\<close>

theorem title_stores_both:
  assumes "match_line (strip raw) = Some (''TITLE'', m2)"
    and "strip m2 = dquote # inner @ [dquote]"
    and "strip inner \<noteq> []"
  shows "\<exists>s'. process_line ovr raw s = Inr s'
           \<and> heap s' (current_dict s) ''TITLE'' = Some (strip inner)
           \<and> heap s' (current_dict s) ''TITLE_RAW'' = Some inner"
proof -
  from assms(1) have ne: "strip raw \<noteq> []" using match_line_Nil by auto
  from unquote_quoted [OF assms(2)] have u: "unquote m2 True = strip inner" "unquote m2 False = inner"
    by simp_all
  have "process_line ovr raw s = Inr (setitem (setitem s ''TITLE'' (strip inner)) ''TITLE_RAW'' inner)"
    using ne assms(1,3) u by (simp add: process_line_def Let_def split: option.splits)
  then show ?thesis by simp
qed

text \<open>
  The line \<open>TITLE "Song "\<close>, read into the empty disc dictionary: \<open>TITLE\<close> is \<open>Song\<close> and
  \<open>TITLE_RAW\<close> is \<open>Song\<close> with its trailing space.
\<close>

theorem title_stores_both_witness:
  "match_line (strip (''TITLE '' @ [dquote] @ ''Song '' @ [dquote])) = Some (''TITLE'', [dquote] @ ''Song '' @ [dquote])
   \<and> strip ([dquote] @ ''Song '' @ [dquote]) = dquote # ''Song '' @ [dquote]
   \<and> strip ''Song '' = ''Song''
   \<and> (\<exists>s'. process_line None (''TITLE '' @ [dquote] @ ''Song '' @ [dquote]) init_state = Inr s'
           \<and> heap s' (current_dict init_state) ''TITLE'' = Some ''Song''
           \<and> heap s' (current_dict init_state) ''TITLE_RAW'' = Some ''Song '')"
proof -
  have 1: "match_line (strip (''TITLE '' @ [dquote] @ ''Song '' @ [dquote])) = Some (''TITLE'', [dquote] @ ''Song '' @ [dquote])"
    by (simp add: match_defs string_defs)
  have 2: "strip ([dquote] @ ''Song '' @ [dquote]) = dquote # ''Song '' @ [dquote]"
    by (simp add: string_defs)
  have 3: "strip ''Song '' = ''Song''"
    by (simp add: string_defs)
  have 4: "strip ''Song '' \<noteq> []" by (simp add: 3)
  from title_stores_both [OF 1 2 4, of None init_state] 1 2 3 show ?thesis by simp
qed

text \<open>
  C4 as stated fails on the line \<open>TITLE ""\<close>: it is a \<open>TITLE\<close> directive, its value is
  enclosed in matching double quotes, and the parser returns the state it was given, with
  neither \<open>TITLE\<close> nor \<open>TITLE_RAW\<close> stored.
\<close>

theorem title_empty_counterexample:
  "match_line (strip (''TITLE '' @ [dquote, dquote])) = Some (''TITLE'', [dquote, dquote])
   \<and> strip [dquote, dquote] = dquote # [] @ [dquote]
   \<and> process_line None (''TITLE '' @ [dquote, dquote]) init_state = Inr init_state
   \<and> heap init_state (current_dict init_state) ''TITLE'' = None
   \<and> heap init_state (current_dict init_state) ''TITLE_RAW'' = None"
  by (simp add: match_defs string_defs process_line_def init_state_def)

text \<open>
  C5, as the code has it. A value whose trimmed form starts with a double quote and does
  not end with one keeps its quote in both modes: \<open>unquote\<close> without stripping returns the
  value as it is, and with stripping returns the trimmed value.
\<close>

theorem unquote_malformed:
  assumes "strip s \<noteq> []" and "hd (strip s) = dquote" and "last (strip s) \<noteq> dquote"
  shows "unquote s False = s \<and> unquote s True = strip s"
  using assms by (simp add: unquote_def)

text \<open>The third row of the table in the source's comment: a quote, \<open>abc\<close> and a space.\<close>

theorem unquote_malformed_witness:
  "strip (dquote # ''abc '') \<noteq> [] \<and> hd (strip (dquote # ''abc '')) = dquote
   \<and> last (strip (dquote # ''abc '')) \<noteq> dquote
   \<and> unquote (dquote # ''abc '') False = dquote # ''abc ''
   \<and> unquote (dquote # ''abc '') True = dquote # ''abc''"
proof -
  have s: "strip (dquote # ''abc '') = dquote # ''abc''"
    by (simp add: strip_def isspace_def)
  show ?thesis
    using unquote_malformed [of "dquote # ''abc ''"] by (simp add: s)
qed

text \<open>
  C5 as stated fails twice. The value made of a quote, \<open>abc\<close> and a space starts with a
  quote and does not end with one, and stripping returns it without its space, not
  verbatim. The value made of a quote, \<open>abc\<close>, a quote and a space starts with a quote and
  ends with a space, and \<open>unquote\<close> removes both quotes.
\<close>

theorem unquote_verbatim_counterexample:
  "hd (dquote # ''abc '') = dquote \<and> last (dquote # ''abc '') \<noteq> dquote
   \<and> unquote (dquote # ''abc '') True \<noteq> dquote # ''abc ''
   \<and> hd (dquote # ''abc'' @ [dquote, CHR '' '']) = dquote
   \<and> last (dquote # ''abc'' @ [dquote, CHR '' '']) \<noteq> dquote
   \<and> unquote (dquote # ''abc'' @ [dquote, CHR '' '']) False \<noteq> dquote # ''abc'' @ [dquote, CHR '' '']"
  by (simp add: unquote_def strip_def isspace_def)

section \<open>Track numbering\<close>

lemmas parse_defs = parse_cue_def finalize_def process_line_def py_int_def digit_val_def
  init_state_def disc_dict_def Let_def

lemma upt_Suc_length: "xs = [1..<Suc n] \<Longrightarrow> length xs = n"
  by simp

lemma gap_or_repeat_fails:
  assumes "declared_numbers (split_on newline text)
             \<noteq> [1..<Suc (length (declared_numbers (split_on newline text)))]"
  shows "isl (parse_cue ovr text)"
proof (rule ccontr)
  assume "\<not> isl (parse_cue ovr text)"
  then obtain d where "parse_cue ovr text = Inr d" by (cases "parse_cue ovr text") auto
  from parse_cue_InrD [OF this] obtain st where
    p: "parse_lines ovr (split_on newline text) init_state = Inr st" by blast
  from declared_numbers_parse_lines [OF p]
  have e: "declared_numbers (split_on newline text) = [1..<Suc (length (track_list st))]"
    by (simp add: init_state_def)
  then have "length (declared_numbers (split_on newline text)) = length (track_list st)"
    by (rule upt_Suc_length)
  with e have "declared_numbers (split_on newline text)
             = [1..<Suc (length (declared_numbers (split_on newline text)))]"
    by (simp del: upt_Suc)
  with assms show False by blast
qed

text \<open>
  C2. A \<open>TRACK\<close> directive that declares the number \<open>n\<close> is accepted exactly when \<open>n\<close> is
  the number of tracks so far plus one, and then appends one track to the sequence; any
  other number is an assertion failure. So whenever \<open>parse_cue\<close> returns, the numbers the
  sheet declares are \<open>1, \<dots>, k\<close> in this order, \<open>k\<close> the length of the track sequence
  under \<open>TRACK_LIST\<close>; and a sheet whose declared numbers are not \<open>1, \<dots>, k\<close>, because
  of a gap or a repeat, makes \<open>parse_cue\<close> raise.
\<close>

theorem track_numbers_sequential:
  "(track_number raw = Some n \<longrightarrow>
      process_line ovr raw s =
        (if n = length (track_list s) + 1 then Inr (new_track s) else Inl (AssertionError None))
      \<and> track_list (new_track s) = track_list s @ [next_addr s])
   \<and> (parse_cue ovr text = Inr d \<longrightarrow>
        (\<exists>ts. d ''TRACK_LIST'' = Some (TrackList ts)
           \<and> declared_numbers (split_on newline text) = [1..<Suc (length ts)]))
   \<and> (declared_numbers (split_on newline text)
          \<noteq> [1..<Suc (length (declared_numbers (split_on newline text)))] \<longrightarrow>
        isl (parse_cue ovr text))"
proof (intro conjI impI)
  assume "track_number raw = Some n"
  then show "process_line ovr raw s =
        (if n = length (track_list s) + 1 then Inr (new_track s) else Inl (AssertionError None))"
    by (rule process_line_track)
next
  show "track_list (new_track s) = track_list s @ [next_addr s]" by simp
next
  assume "parse_cue ovr text = Inr d"
  from parse_cue_InrD [OF this] obtain st where
    p: "parse_lines ovr (split_on newline text) init_state = Inr st"
    and d: "d = (map_option Str \<circ> heap st disc_dict)(''TRACK_LIST'' \<mapsto> TrackList (tracks_of st))"
    by blast
  from declared_numbers_parse_lines [OF p]
  have "declared_numbers (split_on newline text) = [1..<Suc (length (tracks_of st))]"
    by (simp add: init_state_def tracks_of_def)
  with d show "\<exists>ts. d ''TRACK_LIST'' = Some (TrackList ts)
           \<and> declared_numbers (split_on newline text) = [1..<Suc (length ts)]"
    by simp
next
  assume "declared_numbers (split_on newline text)
             \<noteq> [1..<Suc (length (declared_numbers (split_on newline text)))]"
  then show "isl (parse_cue ovr text)" by (rule gap_or_repeat_fails)
qed

lemma split_sheet123:
  "split_on newline sheet123 =
     [''TRACK 01 AUDIO'', ''  TITLE a'', ''TRACK 02 AUDIO'', ''  TITLE b'', ''TRACK 03 AUDIO'',
      ''  TITLE c'', []]"
  by (simp add: sheet123_def)

lemma split_sheet13:
  "split_on newline sheet13 = [''TRACK 01 AUDIO'', ''  TITLE a'', ''TRACK 03 AUDIO'', ''  TITLE b'', []]"
  by (simp add: sheet13_def)

lemma track_number_examples:
  "track_number ''TRACK 01 AUDIO'' = Some 1"
  "track_number ''TRACK 02 AUDIO'' = Some 2"
  "track_number ''TRACK 03 AUDIO'' = Some 3"
  "track_number ''  TITLE a'' = None"
  "track_number ''  TITLE b'' = None"
  "track_number ''  TITLE c'' = None"
  "track_number [] = None"
  by (simp_all add: track_number_def match_defs string_defs py_int_def digit_val_def)

lemma declared_sheet123: "declared_numbers (split_on newline sheet123) = [1, 2, 3]"
  by (simp add: split_sheet123 declared_numbers_def track_number_examples)

lemma declared_sheet13: "declared_numbers (split_on newline sheet13) = [1, 3]"
  by (simp add: split_sheet13 declared_numbers_def track_number_examples)

lemma parse_sheet123: "\<not> isl (parse_cue None sheet123)"
  by (simp add: split_sheet123 parse_defs match_defs string_defs setitem_def new_track_def)

text \<open>
  The sheet declaring tracks 1, 2, 3 parses to three tracks; the sheet declaring 1 and 3
  fails.
\<close>

theorem track_numbers_sequential_witness:
  "track_number ''TRACK 01 AUDIO'' = Some 1
   \<and> process_line None ''TRACK 01 AUDIO'' init_state = Inr (new_track init_state)
   \<and> (\<exists>d ts. parse_cue None sheet123 = Inr d \<and> d ''TRACK_LIST'' = Some (TrackList ts)
         \<and> length ts = 3 \<and> declared_numbers (split_on newline sheet123) = [1, 2, 3])
   \<and> declared_numbers (split_on newline sheet13) = [1, 3]
   \<and> isl (parse_cue None sheet13)"
proof -
  from parse_sheet123 obtain d where d: "parse_cue None sheet123 = Inr d"
    by (cases "parse_cue None sheet123") auto
  note t = track_numbers_sequential [of "''TRACK 01 AUDIO''" 1 None init_state sheet123 d]
  note u = track_numbers_sequential [of "''TRACK 01 AUDIO''" 1 None init_state sheet13 d]
  from t have 1: "process_line None ''TRACK 01 AUDIO'' init_state = Inr (new_track init_state)"
    by (simp add: track_number_examples init_state_def)
  from t d obtain ts where ts: "d ''TRACK_LIST'' = Some (TrackList ts)"
    and n: "declared_numbers (split_on newline sheet123) = [1..<Suc (length ts)]"
    by blast
  from n have "length (declared_numbers (split_on newline sheet123)) = length ts"
    by (rule upt_Suc_length)
  then have "length ts = 3" by (simp add: declared_sheet123)
  moreover from u have "isl (parse_cue None sheet13)"
    by (simp add: declared_sheet13 upt_conv_Cons)
  ultimately show ?thesis
    using 1 d ts by (simp add: track_number_examples declared_sheet123 declared_sheet13)
qed

text \<open>The sheet declaring 1 and 3 fails inside the loop, at the assertion on the number.\<close>

lemma sheet13_fails_at_track_3:
  "parse_lines None (split_on newline sheet13) init_state = Inl (AssertionError None)"
  by (simp add: split_sheet13 parse_defs match_defs string_defs setitem_def new_track_def)

section \<open>Copies and frames\<close>

lemma match_line_key_no_underscore:
  assumes "match_line line = Some (key, m2)"
  shows "key \<noteq> ''TRACK_LIST'' \<and> key \<noteq> ''TITLE_RAW''"
proof -
  from match_line_cases [OF assms]
  consider n where "key = ''REM '' @ n" | "key = ''FILE''" | "key = ''TRACK''" | "key = ''INDEX''"
    | "list_all is_upper key"
    by blast
  then show ?thesis
  proof cases
    case 5
    from upper_no_underscore [OF this] show ?thesis by auto
  qed simp_all
qed

lemma line_key_no_underscore: "line_key raw \<noteq> Some ''TRACK_LIST'' \<and> line_key raw \<noteq> Some ''TITLE_RAW''"
  using match_line_key_no_underscore [of "strip raw"]
  by (cases "match_line (strip raw)") (auto simp: line_key_def)

lemma track_number_None_if_key:
  "line_key raw \<noteq> Some ''TRACK'' \<Longrightarrow> track_number raw = None"
  by (auto simp: line_key_def track_number_def split: option.splits)

lemma tracks_of_new_track:
  assumes "wf_state s"
  shows "tracks_of (new_track s) = tracks_of s @ [(heap s disc_dict)(''TITLE'' := None)]"
proof -
  from assms have "\<forall>a\<in>set (track_list s). a \<noteq> next_addr s"
    by (auto simp: wf_state_def)
  then show ?thesis by (simp add: tracks_of_def)
qed

lemma disc_dict_new_track:
  "wf_state s \<Longrightarrow> heap (new_track s) disc_dict = heap s disc_dict"
  by (auto simp: wf_state_def)

lemma wf_current:
  "wf_state s \<Longrightarrow> track_list s \<noteq> [] \<Longrightarrow>
     current_dict s = last (track_list s) \<and> current_dict s \<noteq> disc_dict
     \<and> current_dict s \<notin> set (butlast (track_list s))"
proof -
  assume w: "wf_state s" and n: "track_list s \<noteq> []"
  then have c: "current_dict s = last (track_list s)" by (simp add: wf_state_def)
  from n have "track_list s = butlast (track_list s) @ [last (track_list s)]" by simp
  moreover from w have "distinct (track_list s)" by (simp add: wf_state_def)
  ultimately have "last (track_list s) \<notin> set (butlast (track_list s))"
    by (metis distinct_append disjoint_iff list.set_intros(1))
  moreover from w n have "last (track_list s) \<noteq> disc_dict"
    by (metis last_in_set wf_state_def)
  ultimately show ?thesis using c by simp
qed


lemma frame_other:
  assumes w: "wf_state s" and n: "track_list s \<noteq> []"
    and t: "track_number raw = None" and p: "process_line ovr raw s = Inr s'"
  shows "heap s' disc_dict = heap s disc_dict \<and> length (tracks_of s') = length (tracks_of s)
       \<and> butlast (tracks_of s') = butlast (tracks_of s)"
proof -
  note c = wf_current [OF w n]
  from process_line_other [OF t p]
  have tl: "track_list s' = track_list s"
    and h: "\<forall>b. b \<noteq> current_dict s \<longrightarrow> heap s' b = heap s b"
    by auto
  from h c have "heap s' disc_dict = heap s disc_dict" by metis
  moreover from h c have "map (heap s') (butlast (track_list s)) = map (heap s) (butlast (track_list s))"
    by (intro map_cong) (auto, metis)
  ultimately show ?thesis using tl by (simp add: tracks_of_def map_butlast)
qed

lemma written_to_last:
  assumes "process_line ovr raw s = Inr s'" and "match_line (strip raw) = Some (key, m2)"
    and "key \<noteq> ''TRACK''" and "key \<noteq> ''INDEX''" and "unquote m2 True \<noteq> []"
    and "track_list s \<noteq> []" and "current_dict s = last (track_list s)"
  shows "last (tracks_of s') key = Some (unquote m2 True)"
proof -
  from assms(2) have ne: "strip raw \<noteq> []" using match_line_Nil by auto
  have "s' = setitem s key (unquote m2 True)
      \<or> (key = ''TITLE'' \<and> s' = setitem (setitem s key (unquote m2 True)) ''TITLE_RAW'' (unquote m2 False))"
    using assms(1-6) ne by (auto simp: process_line_def Let_def split: option.splits if_splits)
  then show ?thesis
    using assms(6,7) by (auto simp: tracks_of_def last_map)
qed

text \<open>
  C3. In a state the parser reaches, a \<open>TRACK\<close> directive appends as the new track a copy
  of the disc dictionary as it is at that moment (without \<open>TITLE\<close>) and leaves the disc
  dictionary and the tracks before it as they are. Any other line read after a \<open>TRACK\<close>
  directive leaves the disc dictionary and every track but the last one as they are; the
  value of a directive that is neither \<open>TRACK\<close> nor \<open>INDEX\<close> is then found under its key
  in the last track.
\<close>

theorem track_copy_independent:
  assumes "parse_lines ovr pre init_state = Inr s" and "process_line ovr raw s = Inr s'"
  shows "(track_number raw \<noteq> None \<longrightarrow>
            tracks_of s' = tracks_of s @ [(heap s disc_dict)(''TITLE'' := None)]
            \<and> heap s' disc_dict = heap s disc_dict)
       \<and> (track_number raw = None \<longrightarrow> track_list s \<noteq> [] \<longrightarrow>
            heap s' disc_dict = heap s disc_dict
            \<and> length (tracks_of s') = length (tracks_of s)
            \<and> butlast (tracks_of s') = butlast (tracks_of s))
       \<and> (match_line (strip raw) = Some (key, m2) \<longrightarrow> key \<noteq> ''TRACK'' \<longrightarrow> key \<noteq> ''INDEX'' \<longrightarrow>
            unquote m2 True \<noteq> [] \<longrightarrow> track_list s \<noteq> [] \<longrightarrow>
            last (tracks_of s') key = Some (unquote m2 True))"
proof (intro conjI impI)
  from assms(1) have w: "wf_state s" using wf_init by (rule wf_parse_lines [rotated])
  {
    assume "track_number raw \<noteq> None"
    then obtain n where "track_number raw = Some n" by blast
    with assms(2) have s': "s' = new_track s"
      by (auto simp: process_line_track split: if_splits)
    from s' w show "tracks_of s' = tracks_of s @ [(heap s disc_dict)(''TITLE'' := None)]"
      by (simp only: tracks_of_new_track)
    from s' w show "heap s' disc_dict = heap s disc_dict"
      by (simp only: disc_dict_new_track)
  }
  {
    assume t: "track_number raw = None" and n: "track_list s \<noteq> []"
    note f = frame_other [OF w n t assms(2)]
    from f show "heap s' disc_dict = heap s disc_dict" by simp
    from f show "length (tracks_of s') = length (tracks_of s)" by simp
    from f show "butlast (tracks_of s') = butlast (tracks_of s)" by simp
  }
  {
    assume m: "match_line (strip raw) = Some (key, m2)" and k: "key \<noteq> ''TRACK''" "key \<noteq> ''INDEX''"
      and v: "unquote m2 True \<noteq> []" and n: "track_list s \<noteq> []"
    from wf_current [OF w n] have c: "current_dict s = last (track_list s)" by simp
    from assms(2) m k v n show "last (tracks_of s') key = Some (unquote m2 True)"
      by (rule written_to_last [OF _ _ _ _ _ _ c])
  }
qed

lemma performer_lines:
  "match_line (strip (''PERFORMER '' @ [dquote] @ ''A'' @ [dquote])) = Some (''PERFORMER'', [dquote] @ ''A'' @ [dquote])"
  "match_line (strip (''PERFORMER '' @ [dquote] @ ''B'' @ [dquote])) = Some (''PERFORMER'', [dquote] @ ''B'' @ [dquote])"
  "unquote ([dquote] @ ''A'' @ [dquote]) True = ''A''"
  "unquote ([dquote] @ ''B'' @ [dquote]) True = ''B''"
  "track_number (''PERFORMER '' @ [dquote] @ ''B'' @ [dquote]) = None"
  by (simp_all add: track_number_def match_defs string_defs)

lemma init_state_simps:
  "track_list init_state = []"
  "current_dict init_state = disc_dict"
  "next_addr init_state = 1"
  "heap init_state a = Map.empty"
  by (simp_all add: init_state_def)

lemma performer_states:
  "parse_lines None [''PERFORMER '' @ [dquote] @ ''A'' @ [dquote]] init_state
     = Inr (setitem init_state ''PERFORMER'' ''A'')"
  "parse_lines None [''PERFORMER '' @ [dquote] @ ''A'' @ [dquote], ''TRACK 01 AUDIO''] init_state
     = Inr (new_track (setitem init_state ''PERFORMER'' ''A''))"
  "process_line None ''TRACK 01 AUDIO'' (setitem init_state ''PERFORMER'' ''A'')
     = Inr (new_track (setitem init_state ''PERFORMER'' ''A''))"
  "process_line None (''PERFORMER '' @ [dquote] @ ''B'' @ [dquote]) (new_track (setitem init_state ''PERFORMER'' ''A''))
     = Inr (setitem (new_track (setitem init_state ''PERFORMER'' ''A'')) ''PERFORMER'' ''B'')"
  by (simp_all add: process_line_def py_int_def digit_val_def Let_def match_defs string_defs
      init_state_simps)

text \<open>
  The disc has performer A; \<open>TRACK 01\<close> copies it; \<open>PERFORMER "B"\<close> inside the track changes
  the track and not the disc.
\<close>

theorem track_copy_independent_witness:
  "parse_lines None [''PERFORMER '' @ [dquote] @ ''A'' @ [dquote]] init_state
     = Inr (setitem init_state ''PERFORMER'' ''A'')
   \<and> process_line None ''TRACK 01 AUDIO'' (setitem init_state ''PERFORMER'' ''A'')
     = Inr (new_track (setitem init_state ''PERFORMER'' ''A''))
   \<and> track_number ''TRACK 01 AUDIO'' \<noteq> None
   \<and> map (\<lambda>t. t ''PERFORMER'') (tracks_of (new_track (setitem init_state ''PERFORMER'' ''A''))) = [Some ''A'']
   \<and> parse_lines None [''PERFORMER '' @ [dquote] @ ''A'' @ [dquote], ''TRACK 01 AUDIO''] init_state
     = Inr (new_track (setitem init_state ''PERFORMER'' ''A''))
   \<and> process_line None (''PERFORMER '' @ [dquote] @ ''B'' @ [dquote]) (new_track (setitem init_state ''PERFORMER'' ''A''))
     = Inr (setitem (new_track (setitem init_state ''PERFORMER'' ''A'')) ''PERFORMER'' ''B'')
   \<and> track_number (''PERFORMER '' @ [dquote] @ ''B'' @ [dquote]) = None
   \<and> track_list (new_track (setitem init_state ''PERFORMER'' ''A'')) \<noteq> []
   \<and> heap (setitem (new_track (setitem init_state ''PERFORMER'' ''A'')) ''PERFORMER'' ''B'') disc_dict ''PERFORMER''
        = Some ''A''
   \<and> last (tracks_of (setitem (new_track (setitem init_state ''PERFORMER'' ''A'')) ''PERFORMER'' ''B'')) ''PERFORMER''
        = Some ''B''"
proof -
  note a = track_copy_independent [OF performer_states(1) performer_states(3),
      of "''PERFORMER''" "[dquote] @ ''A'' @ [dquote]"]
  note b = track_copy_independent [OF performer_states(2) performer_states(4),
      of "''PERFORMER''" "[dquote] @ ''B'' @ [dquote]"]
  have t: "track_number ''TRACK 01 AUDIO'' \<noteq> None"
    by (simp add: track_number_examples)
  from a t have 1: "tracks_of (new_track (setitem init_state ''PERFORMER'' ''A''))
      = tracks_of (setitem init_state ''PERFORMER'' ''A'')
          @ [(heap (setitem init_state ''PERFORMER'' ''A'') disc_dict)(''TITLE'' := None)]"
    by blast
  have 2: "map (\<lambda>t. t ''PERFORMER'') (tracks_of (new_track (setitem init_state ''PERFORMER'' ''A''))) = [Some ''A'']"
    unfolding 1 by (simp add: tracks_of_def init_state_def)
  have n: "track_list (new_track (setitem init_state ''PERFORMER'' ''A'')) \<noteq> []" by simp
  from b performer_lines n
  have 3: "heap (setitem (new_track (setitem init_state ''PERFORMER'' ''A'')) ''PERFORMER'' ''B'') disc_dict
             = heap (new_track (setitem init_state ''PERFORMER'' ''A'')) disc_dict"
    and 4: "last (tracks_of (setitem (new_track (setitem init_state ''PERFORMER'' ''A'')) ''PERFORMER'' ''B'')) ''PERFORMER''
             = Some ''B''"
    by simp_all
  have 5: "heap (new_track (setitem init_state ''PERFORMER'' ''A'')) disc_dict ''PERFORMER'' = Some ''A''"
    by (simp add: init_state_def disc_dict_def)
  show ?thesis
    using performer_states performer_lines t 2 n 3 4 5 by simp
qed

text \<open>
  The whole example: the disc keeps performer A, the first track has performer B, and the
  second track, created later, inherits A.
\<close>

lemma inheritance_example:
  "(case parse_cue None sheetAB of
      Inl e \<Rightarrow> False
    | Inr d \<Rightarrow> d ''PERFORMER'' = Some (Str ''A'')
        \<and> (case d ''TRACK_LIST'' of
              Some (TrackList ts) \<Rightarrow> map (\<lambda>t. t ''PERFORMER'') ts = [Some ''B'', Some ''A'']
            | _ \<Rightarrow> False))"
  by (simp add: sheetAB_def parse_defs match_defs string_defs setitem_def new_track_def)

section \<open>Keys that a line does not write\<close>

lemma key_kept_step:
  assumes "process_line ovr raw s = Inr s'" and "track_number raw = None"
    and "line_key raw \<noteq> Some k" and "k = ''TITLE_RAW'' \<longrightarrow> line_key raw \<noteq> Some ''TITLE''"
  shows "heap s' a k = heap s a k \<and> track_list s' = track_list s \<and> current_dict s' = current_dict s"
proof -
  from process_line_other [OF assms(2,1)]
  consider "s' = s"
    | key val where "line_key raw = Some key" "s' = setitem s key val"
    | m2 where "match_line (strip raw) = Some (''TITLE'', m2)"
        "s' = setitem (setitem s ''TITLE'' (unquote m2 True)) ''TITLE_RAW'' (unquote m2 False)"
    by blast
  then show ?thesis
  proof cases
    case 1
    then show ?thesis by simp
  next
    case 2
    with assms(3) show ?thesis by auto
  next
    case 3
    from 3(1) have "line_key raw = Some ''TITLE''" by (simp add: line_key_def)
    with assms(3,4) have "k \<noteq> ''TITLE''" "k \<noteq> ''TITLE_RAW''" by auto
    with 3(2) show ?thesis by simp
  qed
qed

lemma key_kept_lines:
  assumes "parse_lines ovr ls s = Inr s'"
    and "\<forall>l\<in>set ls. line_key l \<noteq> Some ''TRACK'' \<and> line_key l \<noteq> Some k
           \<and> (k = ''TITLE_RAW'' \<longrightarrow> line_key l \<noteq> Some ''TITLE'')"
  shows "heap s' a k = heap s a k \<and> track_list s' = track_list s \<and> current_dict s' = current_dict s"
  using assms
proof (induction ls arbitrary: s)
  case Nil
  then show ?case by simp
next
  case (Cons l ls)
  from Cons.prems(1) obtain s1 where 1: "process_line ovr l s = Inr s1"
    and 2: "parse_lines ovr ls s1 = Inr s'"
    by (auto split: sum.splits)
  from Cons.prems(2) have t: "track_number l = None"
    by (simp add: track_number_None_if_key)
  from Cons.prems(2) have "line_key l \<noteq> Some k" "k = ''TITLE_RAW'' \<longrightarrow> line_key l \<noteq> Some ''TITLE''"
    by simp_all
  from key_kept_step [OF 1 t this, of a] Cons.IH [OF 2] Cons.prems(2) show ?case by simp
qed

lemma key_absent_lines:
  assumes "parse_lines ovr ls s = Inr s'" and "\<forall>a. heap s a k = None"
    and "\<forall>l\<in>set ls. line_key l \<noteq> Some k" and "k \<noteq> ''TITLE_RAW''"
  shows "\<forall>a. heap s' a k = None"
  using assms(1,2,3)
proof (induction ls arbitrary: s)
  case Nil
  then show ?case by simp
next
  case (Cons l ls)
  from Cons.prems(1) obtain s1 where 1: "process_line ovr l s = Inr s1"
    and 2: "parse_lines ovr ls s1 = Inr s'"
    by (auto split: sum.splits)
  have "\<forall>a. heap s1 a k = None"
  proof (cases "track_number l")
    case None
    from Cons.prems(3) have "line_key l \<noteq> Some k" by simp
    from key_kept_step [OF 1 None this] assms(4) Cons.prems(2) show ?thesis by simp
  next
    case (Some n)
    with 1 have "s1 = new_track s" by (auto simp: process_line_track split: if_splits)
    with Cons.prems(2) show ?thesis by simp
  qed
  from Cons.IH [OF 2 this] Cons.prems(3) show ?case by simp
qed

lemma title_line_stores:
  assumes "match_line (strip t) = Some (''TITLE'', m2)" and "unquote m2 True \<noteq> []"
  shows "process_line ovr t s
           = Inr (setitem (setitem s ''TITLE'' (unquote m2 True)) ''TITLE_RAW'' (unquote m2 False))"
proof -
  from assms(1) have "strip t \<noteq> []" using match_line_Nil by auto
  with assms show ?thesis
    by (simp add: process_line_def Let_def split: option.splits)
qed

text \<open>
  C9. The track a \<open>TRACK\<close> directive creates is the disc dictionary with \<open>TITLE\<close> removed
  and every other key kept, \<open>TITLE_RAW\<close> among them. While the lines that follow are
  neither \<open>TRACK\<close> nor \<open>TITLE\<close> directives, the track has no \<open>TITLE\<close> and its \<open>TITLE_RAW\<close>
  is the one of the disc; a \<open>TITLE\<close> directive with a value that is not empty then replaces
  it by the unquoted value of the track's own title.
\<close>

theorem title_raw_inherited:
  assumes "track_number raw \<noteq> None" and "process_line ovr raw s = Inr s1"
    and "parse_lines ovr mid s1 = Inr s2"
    and "\<forall>l\<in>set mid. line_key l \<noteq> Some ''TRACK'' \<and> line_key l \<noteq> Some ''TITLE''"
  shows "last (tracks_of s1) = (heap s disc_dict)(''TITLE'' := None)
       \<and> (\<forall>k. k \<noteq> ''TITLE'' \<longrightarrow> last (tracks_of s1) k = heap s disc_dict k)
       \<and> last (tracks_of s2) ''TITLE_RAW'' = heap s disc_dict ''TITLE_RAW''
       \<and> last (tracks_of s2) ''TITLE'' = None
       \<and> (match_line (strip t) = Some (''TITLE'', m2) \<longrightarrow> unquote m2 True \<noteq> [] \<longrightarrow>
            process_line ovr t s2 = Inr s3 \<longrightarrow>
            last (tracks_of s3) ''TITLE_RAW'' = Some (unquote m2 False))"
proof -
  from assms(1) obtain n where "track_number raw = Some n" by blast
  with assms(2) have s1: "s1 = new_track s"
    by (auto simp: process_line_track split: if_splits)
  then have l1: "last (tracks_of s1) = (heap s disc_dict)(''TITLE'' := None)"
    by (simp add: tracks_of_def)
  from s1 have c1: "current_dict s1 = last (track_list s1)" "track_list s1 \<noteq> []" by simp_all
  have k: "\<And>k. k = ''TITLE_RAW'' \<or> k = ''TITLE'' \<Longrightarrow>
      heap s2 (last (track_list s1)) k = heap s1 (last (track_list s1)) k
      \<and> track_list s2 = track_list s1 \<and> current_dict s2 = current_dict s1"
  proof -
    fix k :: string
    assume "k = ''TITLE_RAW'' \<or> k = ''TITLE''"
    with assms(4) have "\<forall>l\<in>set mid. line_key l \<noteq> Some ''TRACK'' \<and> line_key l \<noteq> Some k
           \<and> (k = ''TITLE_RAW'' \<longrightarrow> line_key l \<noteq> Some ''TITLE'')"
      using line_key_no_underscore by auto
    from key_kept_lines [OF assms(3) this]
    show "heap s2 (last (track_list s1)) k = heap s1 (last (track_list s1)) k
      \<and> track_list s2 = track_list s1 \<and> current_dict s2 = current_dict s1" .
  qed
  from k [of "''TITLE_RAW''"] c1 have l2: "last (tracks_of s2) ''TITLE_RAW'' = last (tracks_of s1) ''TITLE_RAW''"
    by (simp add: tracks_of_def last_map)
  from k [of "''TITLE''"] c1 have l3: "last (tracks_of s2) ''TITLE'' = last (tracks_of s1) ''TITLE''"
    by (simp add: tracks_of_def last_map)
  from k [of "''TITLE''"] c1 have c2: "current_dict s2 = last (track_list s2)" "track_list s2 \<noteq> []"
    by simp_all
  have l4: "match_line (strip t) = Some (''TITLE'', m2) \<longrightarrow> unquote m2 True \<noteq> [] \<longrightarrow>
            process_line ovr t s2 = Inr s3 \<longrightarrow>
            last (tracks_of s3) ''TITLE_RAW'' = Some (unquote m2 False)"
  proof (intro impI)
    assume "match_line (strip t) = Some (''TITLE'', m2)" "unquote m2 True \<noteq> []"
      and p: "process_line ovr t s2 = Inr s3"
    from title_line_stores [OF this(1,2), of ovr s2] p
    have "s3 = setitem (setitem s2 ''TITLE'' (unquote m2 True)) ''TITLE_RAW'' (unquote m2 False)"
      by simp
    with c2 show "last (tracks_of s3) ''TITLE_RAW'' = Some (unquote m2 False)"
      by (simp add: tracks_of_def last_map)
  qed
  from l1 l2 l3 l4 show ?thesis by simp
qed

lemma title_lines:
  "match_line (strip (''TITLE '' @ [dquote] @ ''Album '' @ [dquote])) = Some (''TITLE'', [dquote] @ ''Album '' @ [dquote])"
  "match_line (strip (''TITLE '' @ [dquote] @ ''Song '' @ [dquote])) = Some (''TITLE'', [dquote] @ ''Song '' @ [dquote])"
  "unquote ([dquote] @ ''Album '' @ [dquote]) True = ''Album''"
  "unquote ([dquote] @ ''Album '' @ [dquote]) False = ''Album ''"
  "unquote ([dquote] @ ''Song '' @ [dquote]) True = ''Song''"
  "unquote ([dquote] @ ''Song '' @ [dquote]) False = ''Song ''"
  "line_key (''PERFORMER '' @ [dquote] @ ''B'' @ [dquote]) = Some ''PERFORMER''"
  by (simp_all add: line_key_def match_defs string_defs)

text \<open>
  The disc title is \<open>Album\<close> with a trailing space inside the quotes. The track created
  next has no \<open>TITLE\<close>, and its \<open>TITLE_RAW\<close> is the one of the disc until the track's
  own title \<open>Song\<close> replaces it.
\<close>

theorem title_raw_inherited_witness:
  "track_number ''TRACK 01 AUDIO'' \<noteq> None
   \<and> process_line None ''TRACK 01 AUDIO'' (setitem (setitem init_state ''TITLE'' ''Album'') ''TITLE_RAW'' ''Album '')
       = Inr (new_track (setitem (setitem init_state ''TITLE'' ''Album'') ''TITLE_RAW'' ''Album ''))
   \<and> parse_lines None [''PERFORMER '' @ [dquote] @ ''B'' @ [dquote]]
         (new_track (setitem (setitem init_state ''TITLE'' ''Album'') ''TITLE_RAW'' ''Album ''))
       = Inr (setitem (new_track (setitem (setitem init_state ''TITLE'' ''Album'') ''TITLE_RAW'' ''Album ''))
                ''PERFORMER'' ''B'')
   \<and> line_key (''PERFORMER '' @ [dquote] @ ''B'' @ [dquote]) \<noteq> Some ''TRACK''
   \<and> line_key (''PERFORMER '' @ [dquote] @ ''B'' @ [dquote]) \<noteq> Some ''TITLE''
   \<and> last (tracks_of (setitem (new_track (setitem (setitem init_state ''TITLE'' ''Album'') ''TITLE_RAW'' ''Album ''))
                ''PERFORMER'' ''B'')) ''TITLE_RAW'' = Some ''Album ''
   \<and> last (tracks_of (setitem (new_track (setitem (setitem init_state ''TITLE'' ''Album'') ''TITLE_RAW'' ''Album ''))
                ''PERFORMER'' ''B'')) ''TITLE'' = None
   \<and> (\<exists>s3. process_line None (''TITLE '' @ [dquote] @ ''Song '' @ [dquote])
          (setitem (new_track (setitem (setitem init_state ''TITLE'' ''Album'') ''TITLE_RAW'' ''Album ''))
                ''PERFORMER'' ''B'') = Inr s3
        \<and> last (tracks_of s3) ''TITLE_RAW'' = Some ''Song '')"
proof -
  let ?s = "setitem (setitem init_state ''TITLE'' ''Album'') ''TITLE_RAW'' ''Album ''"
  let ?s2 = "setitem (new_track ?s) ''PERFORMER'' ''B''"
  have 1: "track_number ''TRACK 01 AUDIO'' \<noteq> None" by (simp add: track_number_examples)
  have 2: "process_line None ''TRACK 01 AUDIO'' ?s = Inr (new_track ?s)"
    by (simp add: process_line_def py_int_def digit_val_def Let_def match_defs string_defs
        init_state_simps)
  have 3: "parse_lines None [''PERFORMER '' @ [dquote] @ ''B'' @ [dquote]] (new_track ?s) = Inr ?s2"
    by (simp add: process_line_def Let_def match_defs string_defs)
  have 4: "\<forall>l\<in>set [''PERFORMER '' @ [dquote] @ ''B'' @ [dquote]].
         line_key l \<noteq> Some ''TRACK'' \<and> line_key l \<noteq> Some ''TITLE''"
    using title_lines(7) by simp
  have 5: "heap ?s disc_dict ''TITLE_RAW'' = Some ''Album ''"
    by (simp add: init_state_simps)
  note w = title_raw_inherited [OF 1 2 3 4, of "''TITLE '' @ [dquote] @ ''Song '' @ [dquote]"
      "[dquote] @ ''Song '' @ [dquote]"]
  from w 5 have 6: "last (tracks_of ?s2) ''TITLE_RAW'' = Some ''Album ''"
    and 7: "last (tracks_of ?s2) ''TITLE'' = None" by simp_all
  from w have 8: "\<forall>s3. process_line None (''TITLE '' @ [dquote] @ ''Song '' @ [dquote]) ?s2 = Inr s3 \<longrightarrow>
        last (tracks_of s3) ''TITLE_RAW'' = Some ''Song ''"
    using title_lines(2,5,6) by simp
  have "\<exists>s3. process_line None (''TITLE '' @ [dquote] @ ''Song '' @ [dquote]) ?s2 = Inr s3"
    using title_line_stores [OF title_lines(2), of None ?s2] title_lines(5) by simp
  with 8 have 9: "\<exists>s3. process_line None (''TITLE '' @ [dquote] @ ''Song '' @ [dquote]) ?s2 = Inr s3
        \<and> last (tracks_of s3) ''TITLE_RAW'' = Some ''Song ''"
    by blast
  from 4 have 10: "line_key (''PERFORMER '' @ [dquote] @ ''B'' @ [dquote]) \<noteq> Some ''TRACK''"
    "line_key (''PERFORMER '' @ [dquote] @ ''B'' @ [dquote]) \<noteq> Some ''TITLE''"
    by simp_all
  from 1 2 3 10 6 7 9 show ?thesis by blast
qed

section \<open>Finalization\<close>

lemma stores_titleD:
  assumes "stores_title l"
  shows "\<exists>m2. match_line (strip l) = Some (''TITLE'', m2) \<and> unquote m2 True \<noteq> []"
  using assms
  by (auto simp: stores_title_def title_value_def split: option.splits if_splits)

lemma titled_step:
  assumes "process_line ovr l s = Inr s1" and "track_number l = None"
  shows "track_list s1 = track_list s \<and> current_dict s1 = current_dict s
       \<and> (\<forall>t. ''TITLE'' \<in> dom (heap s t) \<longrightarrow> ''TITLE'' \<in> dom (heap s1 t))"
  using process_line_other [OF assms(2,1)] by auto

lemma blocks_titled_inv:
  assumes "parse_lines ovr ls s = Inr s'" and "blocks_with stores_title ok ls"
    and "\<forall>t\<in>set (track_list s). (ok \<or> t \<noteq> current_dict s) \<longrightarrow> ''TITLE'' \<in> dom (heap s t)"
  shows "\<forall>t\<in>set (track_list s'). ''TITLE'' \<in> dom (heap s' t)"
  using assms
proof (induction ls arbitrary: s ok)
  case Nil
  then show ?case by simp
next
  case (Cons l ls)
  from Cons.prems(1) obtain s1 where 1: "process_line ovr l s = Inr s1"
    and 2: "parse_lines ovr ls s1 = Inr s'"
    by (auto split: sum.splits)
  show ?case
  proof (cases "track_number l")
    case (Some n)
    with 1 have s1: "s1 = new_track s" by (auto simp: process_line_track split: if_splits)
    from Cons.prems(2) Some have ok: ok and b: "blocks_with stores_title False ls" by simp_all
    from ok Cons.prems(3) s1
    have "\<forall>t\<in>set (track_list s1). (False \<or> t \<noteq> current_dict s1) \<longrightarrow> ''TITLE'' \<in> dom (heap s1 t)"
      by auto
    from Cons.IH [OF 2 b this] show ?thesis .
  next
    case None
    note st = titled_step [OF 1 None]
    show ?thesis
    proof (cases "stores_title l")
      case True
      from stores_titleD [OF True] obtain m2 where
        m: "match_line (strip l) = Some (''TITLE'', m2)" "unquote m2 True \<noteq> []" by blast
      from title_line_stores [OF m, of ovr s] 1
      have "''TITLE'' \<in> dom (heap s1 (current_dict s))" by auto
      with st Cons.prems(3)
      have i: "\<forall>t\<in>set (track_list s1). (True \<or> t \<noteq> current_dict s1) \<longrightarrow> ''TITLE'' \<in> dom (heap s1 t)"
        by metis
      from Cons.prems(2) None True have b: "blocks_with stores_title True ls" by simp
      from Cons.IH [OF 2 b i] show ?thesis .
    next
      case False
      from st Cons.prems(3)
      have i: "\<forall>t\<in>set (track_list s1). (ok \<or> t \<noteq> current_dict s1) \<longrightarrow> ''TITLE'' \<in> dom (heap s1 t)"
        by metis
      from Cons.prems(2) None False have b: "blocks_with stores_title ok ls" by simp
      from Cons.IH [OF 2 b i] show ?thesis .
    qed
  qed
qed

text \<open>
  C6, as the code has it. When the loop has consumed all lines without an error, parsing
  fails at the final check if some track has no \<open>TITLE\<close>; and it succeeds, returning the disc
  dictionary with the track sequence under \<open>TRACK_LIST\<close>, if every track block has a
  \<open>TITLE\<close> directive whose trimmed and unquoted value is not empty.
\<close>

theorem finalize_titles:
  assumes "parse_lines ovr (split_on newline text) init_state = Inr s"
  shows "((\<exists>t\<in>set (tracks_of s). ''TITLE'' \<notin> dom t) \<longrightarrow>
            parse_cue ovr text = Inl (AssertionError None))
       \<and> (blocks_with stores_title True (split_on newline text) \<longrightarrow>
            parse_cue ovr text
              = Inr ((map_option Str \<circ> heap s disc_dict)
                       (''TRACK_LIST'' \<mapsto> TrackList (tracks_of s))))"
proof (intro conjI impI)
  assume "\<exists>t\<in>set (tracks_of s). ''TITLE'' \<notin> dom t"
  then have "\<not> list_all (\<lambda>t. ''TITLE'' \<in> dom (heap s t)) (track_list s)"
    by (auto simp: tracks_of_def list_all_iff)
  with assms show "parse_cue ovr text = Inl (AssertionError None)"
    by (simp add: parse_cue_def finalize_def)
next
  assume b: "blocks_with stores_title True (split_on newline text)"
  have "\<forall>t\<in>set (track_list init_state). (True \<or> t \<noteq> current_dict init_state)
          \<longrightarrow> ''TITLE'' \<in> dom (heap init_state t)"
    by (simp add: init_state_simps)
  from blocks_titled_inv [OF assms b this]
  have "list_all (\<lambda>t. ''TITLE'' \<in> dom (heap s t)) (track_list s)"
    by (simp add: list_all_iff)
  with assms show "parse_cue ovr text
              = Inr ((map_option Str \<circ> heap s disc_dict)
                       (''TRACK_LIST'' \<mapsto> TrackList (tracks_of s)))"
    by (simp add: parse_cue_def finalize_def tracks_of_def)
qed

lemma split_sheet_empty_title:
  "split_on newline sheet_empty_title = [''TRACK 01 AUDIO'', ''TITLE '' @ [dquote, dquote]]"
  by (simp add: sheet_empty_title_def)

lemma empty_title_line:
  "match_line (strip (''TITLE '' @ [dquote, dquote])) = Some (''TITLE'', [dquote, dquote])"
  "unquote [dquote, dquote] True = []"
  "track_number (''TITLE '' @ [dquote, dquote]) = None"
  "is_title_line (''TITLE '' @ [dquote, dquote])"
  "\<not> stores_title (''TITLE '' @ [dquote, dquote])"
  by (simp_all add: is_title_line_def stores_title_def title_value_def line_key_def
      track_number_def match_defs string_defs)

lemma parse_lines_sheet_empty_title:
  "parse_lines None (split_on newline sheet_empty_title) init_state = Inr (new_track init_state)"
  by (simp add: split_sheet_empty_title process_line_def py_int_def digit_val_def Let_def
      match_defs string_defs init_state_simps)

lemma stores_title_examples:
  "stores_title ''  TITLE a''" "stores_title ''  TITLE b''" "stores_title ''  TITLE c''"
  "\<not> stores_title []"
  by (simp_all add: stores_title_def title_value_def match_defs string_defs)

lemma blocks_sheet123: "blocks_with stores_title True (split_on newline sheet123)"
  by (simp add: split_sheet123 track_number_examples stores_title_examples)

lemma parse_lines_sheet123: "\<not> isl (parse_lines None (split_on newline sheet123) init_state)"
  by (simp add: split_sheet123 process_line_def py_int_def digit_val_def Let_def
      match_defs string_defs init_state_simps)

text \<open>
  A sheet with one track and no stored title fails at the final check; the sheet with three
  titled tracks is returned with its three tracks.
\<close>

theorem finalize_titles_witness:
  "parse_lines None (split_on newline sheet_empty_title) init_state = Inr (new_track init_state)
   \<and> (\<exists>t\<in>set (tracks_of (new_track init_state)). ''TITLE'' \<notin> dom t)
   \<and> parse_cue None sheet_empty_title = Inl (AssertionError None)
   \<and> blocks_with stores_title True (split_on newline sheet123)
   \<and> (\<exists>s. parse_lines None (split_on newline sheet123) init_state = Inr s
         \<and> length (tracks_of s) = 3
         \<and> parse_cue None sheet123
             = Inr ((map_option Str \<circ> heap s disc_dict)(''TRACK_LIST'' \<mapsto> TrackList (tracks_of s))))"
proof -
  have 1: "\<exists>t\<in>set (tracks_of (new_track init_state)). ''TITLE'' \<notin> dom t"
    by (simp add: tracks_of_def init_state_simps)
  from finalize_titles [OF parse_lines_sheet_empty_title] 1
  have 2: "parse_cue None sheet_empty_title = Inl (AssertionError None)" by blast
  from parse_lines_sheet123 obtain s where
    s: "parse_lines None (split_on newline sheet123) init_state = Inr s"
    by (cases "parse_lines None (split_on newline sheet123) init_state") auto
  from finalize_titles [OF s] blocks_sheet123
  have 3: "parse_cue None sheet123
             = Inr ((map_option Str \<circ> heap s disc_dict)(''TRACK_LIST'' \<mapsto> TrackList (tracks_of s)))"
    by blast
  from declared_numbers_parse_lines [OF s]
  have "declared_numbers (split_on newline sheet123) = [1..<Suc (length (tracks_of s))]"
    by (simp add: init_state_simps tracks_of_def)
  then have "length (declared_numbers (split_on newline sheet123)) = length (tracks_of s)"
    by (rule upt_Suc_length)
  then have 4: "length (tracks_of s) = 3" by (simp add: declared_sheet123)
  from parse_lines_sheet_empty_title 1 2 blocks_sheet123 s 3 4 show ?thesis by blast
qed

text \<open>
  C6 as stated fails on the sheet \<open>TRACK 01 AUDIO\<close>, \<open>TITLE ""\<close>: its only track block
  contains a \<open>TITLE\<close> line, the loop consumes both lines without an error, and the final
  check fails, because the line with the empty value was skipped.
\<close>

theorem title_line_counterexample:
  "blocks_with is_title_line True (split_on newline sheet_empty_title)
   \<and> \<not> isl (parse_lines None (split_on newline sheet_empty_title) init_state)
   \<and> parse_cue None sheet_empty_title = Inl (AssertionError None)"
proof -
  have "blocks_with is_title_line True [''TRACK 01 AUDIO'', ''TITLE '' @ [dquote, dquote]]"
    using track_number_examples(1) empty_title_line(3,4) by simp
  then have 1: "blocks_with is_title_line True (split_on newline sheet_empty_title)"
    by (simp only: split_sheet_empty_title)
  have 2: "\<not> isl (parse_lines None (split_on newline sheet_empty_title) init_state)"
    by (simp add: parse_lines_sheet_empty_title)
  have 3: "parse_cue None sheet_empty_title = Inl (AssertionError None)"
    by (simp add: parse_cue_def parse_lines_sheet_empty_title finalize_def init_state_simps)
  from 1 2 3 show ?thesis by blast
qed

section \<open>The reserved key\<close>

text \<open>
  C7. When \<open>parse_cue\<close> returns, the entry of its result under \<open>TRACK_LIST\<close> is the track
  sequence the parser built, and the loop over the lines has written \<open>TRACK_LIST\<close> into no
  dictionary, the disc's or a track's: no line matches a pattern with that key.
\<close>

theorem track_list_reserved:
  "(parse_cue ovr text = Inr d \<longrightarrow>
      (\<exists>s. parse_lines ovr (split_on newline text) init_state = Inr s
          \<and> d ''TRACK_LIST'' = Some (TrackList (tracks_of s))
          \<and> (\<forall>a. heap s a ''TRACK_LIST'' = None)))
   \<and> (match_line line = Some (key, m2) \<longrightarrow> key \<noteq> ''TRACK_LIST'')"
proof (intro conjI impI)
  assume "parse_cue ovr text = Inr d"
  from parse_cue_InrD [OF this] obtain s where
    p: "parse_lines ovr (split_on newline text) init_state = Inr s"
    and d: "d = (map_option Str \<circ> heap s disc_dict)(''TRACK_LIST'' \<mapsto> TrackList (tracks_of s))"
    by blast
  have "\<forall>a. heap init_state a ''TRACK_LIST'' = None" by (simp add: init_state_simps)
  moreover have "\<forall>l\<in>set (split_on newline text). line_key l \<noteq> Some ''TRACK_LIST''"
    using line_key_no_underscore by blast
  ultimately have "\<forall>a. heap s a ''TRACK_LIST'' = None"
    using key_absent_lines [OF p] by simp
  with p d show "\<exists>s. parse_lines ovr (split_on newline text) init_state = Inr s
          \<and> d ''TRACK_LIST'' = Some (TrackList (tracks_of s))
          \<and> (\<forall>a. heap s a ''TRACK_LIST'' = None)"
    by auto
next
  assume "match_line line = Some (key, m2)"
  from match_line_key_no_underscore [OF this] show "key \<noteq> ''TRACK_LIST''" by simp
qed

text \<open>
  The sheet with three tracks, and two lines: \<open>TITLE a\<close> has the key \<open>TITLE\<close>, and a line
  that starts with \<open>TRACK_LIST\<close> matches no pattern.
\<close>

theorem track_list_reserved_witness:
  "(\<exists>d s. parse_cue None sheet123 = Inr d
       \<and> parse_lines None (split_on newline sheet123) init_state = Inr s
       \<and> d ''TRACK_LIST'' = Some (TrackList (tracks_of s))
       \<and> (\<forall>a. heap s a ''TRACK_LIST'' = None))
   \<and> match_line ''TITLE a'' = Some (''TITLE'', ''a'') \<and> ''TITLE'' \<noteq> ''TRACK_LIST''
   \<and> match_line ''TRACK_LIST x'' = None"
proof -
  from parse_sheet123 obtain d where d: "parse_cue None sheet123 = Inr d"
    by (cases "parse_cue None sheet123") auto
  have m: "match_line ''TITLE a'' = Some (''TITLE'', ''a'')" "match_line ''TRACK_LIST x'' = None"
    by (simp_all add: match_defs)
  from track_list_reserved [of None sheet123 d "''TITLE a''" "''TITLE''" "''a''"] d m
  show ?thesis by auto
qed

section \<open>Sheet-path resolution\<close>

lemma fs_of_simps [simp]:
  "is_file (fs_of d names) p = (p \<in> set (map (\<lambda>n. d @ [n]) names))"
  "listdir (fs_of d names) p = (if p = d then names else [])"
  "cwd (fs_of d names) = []"
  "resolve (fs_of d names) p = p"
  by (simp_all add: fs_of_def)

lemma name_snoc [simp]: "name (d @ [n]) = n"
  by (simp add: name_def)

lemma parent_snoc [simp]: "parent (d @ [n]) = d"
  by (simp add: parent_def)

lemma filter_first:
  assumes "xs = pre @ x # post" and "P x" and "\<forall>y\<in>set pre. \<not> P y"
  shows "filter P xs = x # filter P post"
  using assms by simp

text \<open>
  C1, as the code has it. Without \<open>--cue\<close>, \<open>determine_cue\<close> fails when there is no root
  directory, and fails when no entry of the root directory is a file with the suffix
  \<open>.cue\<close>. When such an entry exists, the result is the first of them in the order
  \<open>iterdir\<close> yields the entries, whatever follows it: a second sheet is no error.
\<close>

theorem determine_cue_scan:
  "determine_cue fs None None = Inl (AssertionError (Some ''Neither --input nor --cue specified.''))
   \<and> ((\<forall>n\<in>set (listdir fs r). \<not> (is_file fs (r @ [n]) \<and> lower (suffix (r @ [n])) = ''.cue'')) \<longrightarrow>
        determine_cue fs None (Some r) = Inl (AssertionError (Some ''No cue found in --input'')))
   \<and> (listdir fs r = pre @ n # post \<longrightarrow>
        is_file fs (r @ [n]) \<and> lower (suffix (r @ [n])) = ''.cue'' \<longrightarrow>
        (\<forall>m\<in>set pre. \<not> (is_file fs (r @ [m]) \<and> lower (suffix (r @ [m])) = ''.cue'')) \<longrightarrow>
        determine_cue fs None (Some r) = Inr (resolve fs (r @ [n])))"
proof (intro conjI impI)
  show "determine_cue fs None None = Inl (AssertionError (Some ''Neither --input nor --cue specified.''))"
    by (simp add: determine_cue_def)
next
  assume "\<forall>n\<in>set (listdir fs r). \<not> (is_file fs (r @ [n]) \<and> lower (suffix (r @ [n])) = ''.cue'')"
  then have "filter (\<lambda>x. is_file fs x \<and> lower (suffix x) = ''.cue'') (iterdir fs r) = []"
    by (auto simp: iterdir_def filter_empty_conv)
  then show "determine_cue fs None (Some r) = Inl (AssertionError (Some ''No cue found in --input''))"
    by (simp add: determine_cue_def)
next
  assume l: "listdir fs r = pre @ n # post"
    and f: "is_file fs (r @ [n]) \<and> lower (suffix (r @ [n])) = ''.cue''"
    and p: "\<forall>m\<in>set pre. \<not> (is_file fs (r @ [m]) \<and> lower (suffix (r @ [m])) = ''.cue'')"
  from l have "iterdir fs r = map (\<lambda>n. r @ [n]) pre @ (r @ [n]) # map (\<lambda>n. r @ [n]) post"
    by (simp add: iterdir_def)
  moreover from p have "\<forall>y\<in>set (map (\<lambda>n. r @ [n]) pre). \<not> (is_file fs y \<and> lower (suffix y) = ''.cue'')"
    by auto
  ultimately have "filter (\<lambda>x. is_file fs x \<and> lower (suffix x) = ''.cue'') (iterdir fs r)
      = (r @ [n]) # filter (\<lambda>x. is_file fs x \<and> lower (suffix x) = ''.cue'') (map (\<lambda>n. r @ [n]) post)"
    using f by (intro filter_first) auto
  then show "determine_cue fs None (Some r) = Inr (resolve fs (r @ [n]))"
    by (simp add: determine_cue_def)
qed

lemma suffix_examples:
  "lower (suffix [''album'', ''a.cue'']) = ''.cue''"
  "lower (suffix [''album'', ''b.cue'']) = ''.cue''"
  by (simp_all add: suffix_def name_def lower_def lower_char_def)

text \<open>A root directory with the sheets \<open>a.cue\<close> and \<open>b.cue\<close>, in this order, resolves to \<open>a.cue\<close>.\<close>

theorem determine_cue_scan_witness:
  "listdir fs_two_cues [''album''] = [] @ ''a.cue'' # [''b.cue'']
   \<and> is_file fs_two_cues ([''album''] @ [''a.cue''])
   \<and> lower (suffix ([''album''] @ [''a.cue''])) = ''.cue''
   \<and> determine_cue fs_two_cues None (Some [''album'']) = Inr [''album'', ''a.cue'']
   \<and> determine_cue (fs_of [''album''] [''a.flac'']) None (Some [''album''])
       = Inl (AssertionError (Some ''No cue found in --input''))"
proof -
  have 1: "listdir fs_two_cues [''album''] = [] @ ''a.cue'' # [''b.cue'']"
    by (simp add: fs_two_cues_def)
  have 2: "is_file fs_two_cues ([''album''] @ [''a.cue''])"
    by (simp add: fs_two_cues_def)
  have 3: "lower (suffix ([''album''] @ [''a.cue''])) = ''.cue''"
    using suffix_examples(1) by simp
  have 4: "\<forall>n\<in>set (listdir (fs_of [''album''] [''a.flac'']) [''album'']).
      \<not> (is_file (fs_of [''album''] [''a.flac'']) ([''album''] @ [n])
         \<and> lower (suffix ([''album''] @ [n])) = ''.cue'')"
    by (simp add: suffix_def name_def lower_def lower_char_def)
  from determine_cue_scan [of fs_two_cues "[''album'']" "[]" "''a.cue''" "[''b.cue'']"] 1 2 3
  have 5: "determine_cue fs_two_cues None (Some [''album'']) = Inr [''album'', ''a.cue'']"
    by (simp add: fs_two_cues_def)
  from determine_cue_scan [of "fs_of [''album''] [''a.flac'']" "[''album'']"] 4
  have 6: "determine_cue (fs_of [''album''] [''a.flac'']) None (Some [''album''])
       = Inl (AssertionError (Some ''No cue found in --input''))"
    by blast
  from 1 2 3 5 6 show ?thesis by blast
qed

text \<open>
  C1 as stated fails on a root directory that holds the two sheets \<open>a.cue\<close> and \<open>b.cue\<close>:
  both are files with the sheet suffix, and resolution returns the first instead of an
  error.
\<close>

theorem two_cues_counterexample:
  "length (filter (\<lambda>x. is_file fs_two_cues x \<and> lower (suffix x) = ''.cue'')
            (iterdir fs_two_cues [''album''])) = 2
   \<and> determine_cue fs_two_cues None (Some [''album'']) = Inr [''album'', ''a.cue'']"
  by (simp add: determine_cue_def iterdir_def fs_two_cues_def suffix_def name_def lower_def
      lower_char_def)

section \<open>Cover resolution\<close>

lemma scan_cover_priority:
  assumes "find (\<lambda>n. is_file fs (d @ [n]) \<and> lower n \<in> set PRIORITY_COVER_NAMES) names = Some n"
  shows "scan_cover fs (map (\<lambda>n. d @ [n]) names) pics = Inl (d @ [n])"
  using assms
proof (induction names arbitrary: pics)
  case Nil
  then show ?case by simp
next
  case (Cons a names)
  show ?case
  proof (cases "is_file fs (d @ [a]) \<and> lower a \<in> set PRIORITY_COVER_NAMES")
    case True
    with Cons.prems show ?thesis by simp
  next
    case False
    with Cons.prems
    have "find (\<lambda>n. is_file fs (d @ [n]) \<and> lower n \<in> set PRIORITY_COVER_NAMES) names = Some n"
      by simp
    from Cons.IH [OF this] False show ?thesis by auto
  qed
qed

lemma find_unique:
  assumes "n \<in> set xs" and "P n" and "\<forall>m\<in>set xs. P m \<longrightarrow> m = n"
  shows "find P xs = Some n"
proof (cases "find P xs")
  case None
  with assms(1,2) show ?thesis by (auto simp: find_None_iff)
next
  case (Some m)
  then have "m \<in> set xs \<and> P m"
    by (auto simp: find_Some_iff)
  with assms(3) Some show ?thesis by auto
qed

text \<open>
  C8. Without \<open>--cover\<close>, if the root directory holds a file whose lower-cased name is one
  of the priority cover names, the result is such a file of the root directory, whatever
  other images the directory holds. If \<open>n\<close> is the only such file, \<open>n\<close> is the result in
  whatever order the directory yields its entries; and the same holds for the directory of
  the sheet when there is no root directory or the root directory holds no image at all.
\<close>

theorem cover_priority_any_order:
  assumes "n \<in> set (listdir fs d)" and "is_file fs (d @ [n])"
    and "lower n \<in> set PRIORITY_COVER_NAMES"
  shows "(\<exists>m. m \<in> set (listdir fs d) \<and> is_file fs (d @ [m]) \<and> lower m \<in> set PRIORITY_COVER_NAMES
            \<and> determine_cover natsorted fs None (Some d) cue_path = Inr (Some (resolve fs (d @ [m]))))
       \<and> ((\<forall>m\<in>set (listdir fs d).
              is_file fs (d @ [m]) \<and> lower m \<in> set PRIORITY_COVER_NAMES \<longrightarrow> m = n) \<longrightarrow>
            determine_cover natsorted fs None (Some d) cue_path = Inr (Some (resolve fs (d @ [n])))
            \<and> (parent cue_path = d \<longrightarrow>
                 rootdir = None \<or> (\<exists>r. rootdir = Some r \<and> scan_cover fs (iterdir fs r) [] = Inr []) \<longrightarrow>
                 determine_cover natsorted fs None rootdir cue_path = Inr (Some (resolve fs (d @ [n])))))"
proof -
  let ?P = "\<lambda>n. is_file fs (d @ [n]) \<and> lower n \<in> set PRIORITY_COVER_NAMES"
  have run: "determine_cover natsorted fs None (Some d) cue_path = Inr (Some (resolve fs (d @ [m])))
      \<and> (parent cue_path = d \<longrightarrow>
            rootdir = None \<or> (\<exists>r. rootdir = Some r \<and> scan_cover fs (iterdir fs r) [] = Inr []) \<longrightarrow>
            determine_cover natsorted fs None rootdir cue_path = Inr (Some (resolve fs (d @ [m]))))"
    if "find ?P (listdir fs d) = Some m" for m
  proof -
    from scan_cover_priority [OF that] have s: "scan_cover fs (iterdir fs d) [] = Inl (d @ [m])"
      by (simp add: iterdir_def)
    then show ?thesis by (auto simp: determine_cover_def)
  qed
  from assms have "find ?P (listdir fs d) \<noteq> None"
    by (auto simp: find_None_iff)
  then obtain m where m: "find ?P (listdir fs d) = Some m" by blast
  then have "m \<in> set (listdir fs d) \<and> ?P m"
    by (auto simp: find_Some_iff)
  with run [OF m] have 1: "\<exists>m. m \<in> set (listdir fs d) \<and> is_file fs (d @ [m])
        \<and> lower m \<in> set PRIORITY_COVER_NAMES
        \<and> determine_cover natsorted fs None (Some d) cue_path = Inr (Some (resolve fs (d @ [m])))"
    by blast
  have 2: "determine_cover natsorted fs None (Some d) cue_path = Inr (Some (resolve fs (d @ [n])))
            \<and> (parent cue_path = d \<longrightarrow>
                 rootdir = None \<or> (\<exists>r. rootdir = Some r \<and> scan_cover fs (iterdir fs r) [] = Inr []) \<longrightarrow>
                 determine_cover natsorted fs None rootdir cue_path = Inr (Some (resolve fs (d @ [n]))))"
    if u: "\<forall>m\<in>set (listdir fs d). ?P m \<longrightarrow> m = n"
  proof -
    from find_unique [of n "listdir fs d" ?P] assms u have "find ?P (listdir fs d) = Some n"
      by blast
    from run [OF this] show ?thesis .
  qed
  from 1 2 show ?thesis by blast
qed

lemma priority_names:
  "PRIORITY_COVER_NAMES =
     [''cover.jpg'', ''cover.png'', ''cover.tif'', ''cover.tiff'',
      ''folder.jpg'', ''folder.png'', ''folder.tif'', ''folder.tiff'']"
  by (simp add: PRIORITY_COVER_NAMES_def COVER_SUFFIX_def)

lemma lower_examples:
  "lower ''folder.jpg'' = ''folder.jpg''"
  "lower ''random.png'' = ''random.png''"
  by (simp_all add: lower_def lower_char_def)

lemma lower_mixed_case: "lower ''Folder.JPG'' = ''folder.jpg''"
  by code_simp

text \<open>
  The root directory with \<open>random.png\<close> and \<open>folder.jpg\<close> resolves to \<open>folder.jpg\<close> in
  both orders of its two entries, and so does the directory of the sheet when there is no
  root directory; the name \<open>Folder.JPG\<close> has priority as well.
\<close>

theorem cover_priority_any_order_witness:
  "determine_cover natsorted_id fs_cover None (Some [''album'']) [''album'', ''disc.cue'']
     = Inr (Some [''album'', ''folder.jpg''])
   \<and> determine_cover natsorted_id fs_cover_rev None (Some [''album'']) [''album'', ''disc.cue'']
     = Inr (Some [''album'', ''folder.jpg''])
   \<and> determine_cover natsorted_id fs_cover None None [''album'', ''disc.cue'']
     = Inr (Some [''album'', ''folder.jpg''])
   \<and> determine_cover natsorted_id (fs_of [''album''] [''random.png'', ''Folder.JPG'']) None
       (Some [''album'']) [''album'', ''disc.cue'']
     = Inr (Some [''album'', ''Folder.JPG''])"
proof -
  have a: "''folder.jpg'' \<in> set (listdir fs_cover [''album''])"
    "is_file fs_cover ([''album''] @ [''folder.jpg''])"
    "lower ''folder.jpg'' \<in> set PRIORITY_COVER_NAMES"
    "\<forall>m\<in>set (listdir fs_cover [''album'']).
       is_file fs_cover ([''album''] @ [m]) \<and> lower m \<in> set PRIORITY_COVER_NAMES \<longrightarrow> m = ''folder.jpg''"
    by (simp_all add: fs_cover_def priority_names lower_examples)
  have b: "''folder.jpg'' \<in> set (listdir fs_cover_rev [''album''])"
    "is_file fs_cover_rev ([''album''] @ [''folder.jpg''])"
    "\<forall>m\<in>set (listdir fs_cover_rev [''album'']).
       is_file fs_cover_rev ([''album''] @ [m]) \<and> lower m \<in> set PRIORITY_COVER_NAMES \<longrightarrow> m = ''folder.jpg''"
    by (simp_all add: fs_cover_rev_def priority_names lower_examples)
  note w1 = cover_priority_any_order [OF a(1,2,3), of natsorted_id "[''album'', ''disc.cue'']" None]
  note w2 = cover_priority_any_order [OF b(1,2) a(3), of natsorted_id "[''album'', ''disc.cue'']" None]
  have p: "parent [''album'', ''disc.cue''] = [''album'']" by (simp add: parent_def)
  from w1 a(4)
  have "determine_cover natsorted_id fs_cover None (Some [''album'']) [''album'', ''disc.cue'']
     = Inr (Some (resolve fs_cover ([''album''] @ [''folder.jpg''])))"
    by blast
  then have 1: "determine_cover natsorted_id fs_cover None (Some [''album'']) [''album'', ''disc.cue'']
     = Inr (Some [''album'', ''folder.jpg''])"
    by (simp add: fs_cover_def)
  from w2 b(3)
  have "determine_cover natsorted_id fs_cover_rev None (Some [''album'']) [''album'', ''disc.cue'']
     = Inr (Some (resolve fs_cover_rev ([''album''] @ [''folder.jpg''])))"
    by blast
  then have 2: "determine_cover natsorted_id fs_cover_rev None (Some [''album'']) [''album'', ''disc.cue'']
     = Inr (Some [''album'', ''folder.jpg''])"
    by (simp add: fs_cover_rev_def)
  from w1 a(4) p
  have "determine_cover natsorted_id fs_cover None None [''album'', ''disc.cue'']
     = Inr (Some (resolve fs_cover ([''album''] @ [''folder.jpg''])))"
    by blast
  then have 3: "determine_cover natsorted_id fs_cover None None [''album'', ''disc.cue'']
     = Inr (Some [''album'', ''folder.jpg''])"
    by (simp add: fs_cover_def)
  have c: "''Folder.JPG'' \<in> set (listdir (fs_of [''album''] [''random.png'', ''Folder.JPG'']) [''album''])"
    "is_file (fs_of [''album''] [''random.png'', ''Folder.JPG'']) ([''album''] @ [''Folder.JPG''])"
    "lower ''Folder.JPG'' \<in> set PRIORITY_COVER_NAMES"
    "\<forall>m\<in>set (listdir (fs_of [''album''] [''random.png'', ''Folder.JPG'']) [''album'']).
       is_file (fs_of [''album''] [''random.png'', ''Folder.JPG'']) ([''album''] @ [m])
         \<and> lower m \<in> set PRIORITY_COVER_NAMES \<longrightarrow> m = ''Folder.JPG''"
    by (simp_all add: priority_names lower_examples lower_mixed_case)
  from cover_priority_any_order [OF c(1,2,3), of natsorted_id "[''album'', ''disc.cue'']" None] c(4)
  have "determine_cover natsorted_id (fs_of [''album''] [''random.png'', ''Folder.JPG'']) None
       (Some [''album'']) [''album'', ''disc.cue'']
     = Inr (Some (resolve (fs_of [''album''] [''random.png'', ''Folder.JPG'']) ([''album''] @ [''Folder.JPG''])))"
    by blast
  then have 4: "determine_cover natsorted_id (fs_of [''album''] [''random.png'', ''Folder.JPG'']) None
       (Some [''album'']) [''album'', ''disc.cue'']
     = Inr (Some [''album'', ''Folder.JPG''])"
    by simp
  from 1 2 3 4 show ?thesis by blast
qed


section \<open>Audio-path resolution\<close>

lemma parse_no_file:
  assumes "parse_cue ovr text = Inr d"
    and "\<forall>l\<in>set (split_on newline text). line_key l \<noteq> Some ''FILE''"
  shows "d ''FILE'' = None"
proof -
  from parse_cue_InrD [OF assms(1)] obtain s where
    p: "parse_lines ovr (split_on newline text) init_state = Inr s"
    and d: "d = (map_option Str \<circ> heap s disc_dict)(''TRACK_LIST'' \<mapsto> TrackList (tracks_of s))"
    by blast
  have "\<forall>a. heap init_state a ''FILE'' = None" by (simp add: init_state_simps)
  from key_absent_lines [OF p this assms(2)] have "heap s disc_dict ''FILE'' = None" by simp
  with d show ?thesis by simp
qed

text \<open>
  C10. Without \<open>--wav\<close>, and for the result of parsing a sheet that has no \<open>FILE\<close>
  directive, \<open>determine_wav\<close> raises \<open>KeyError\<close> for the key \<open>FILE\<close>, with or without a
  root directory and whatever the file system holds: the lookup comes before every
  directory scan, so a single audio file in the root directory is never found.
\<close>

theorem determine_wav_missing_file:
  assumes "parse_cue ovr text = Inr d"
    and "\<forall>l\<in>set (split_on newline text). line_key l \<noteq> Some ''FILE''"
  shows "determine_wav fs None rootdir cue_path d = Inl (KeyError ''FILE'')"
proof -
  from parse_no_file [OF assms] have "getitem d ''FILE'' = Inl (KeyError ''FILE'')"
    by (simp add: getitem_def)
  then show ?thesis
    by (simp add: determine_wav_def Let_def split: option.splits)
qed

lemma line_key_examples:
  "line_key ''TRACK 01 AUDIO'' = Some ''TRACK''"
  "line_key ''TRACK 02 AUDIO'' = Some ''TRACK''"
  "line_key ''TRACK 03 AUDIO'' = Some ''TRACK''"
  "line_key ''  TITLE a'' = Some ''TITLE''"
  "line_key ''  TITLE b'' = Some ''TITLE''"
  "line_key ''  TITLE c'' = Some ''TITLE''"
  "line_key [] = None"
  by (simp_all add: line_key_def match_defs string_defs)

lemma audio_suffixes: "AUDIO_SUFFIX = [''.wav'', ''.ape'', ''.flac'', ''.tta'']"
  by (simp add: AUDIO_SUFFIX_def)

lemma one_flac:
  "scan_wav fs_one_flac [''album''] = [[''album'', ''a.flac'']]"
  by (simp add: scan_wav_def iterdir_def fs_one_flac_def audio_suffixes suffix_def name_def
      lower_def lower_char_def)

lemma resolve_one_flac: "resolve fs_one_flac p = p"
  by (simp add: fs_one_flac_def)

text \<open>
  The sheet with three tracks has no \<open>FILE\<close> line, and the root directory holds exactly one
  audio file, \<open>a.flac\<close>, which the directory scan alone would return.
\<close>

theorem determine_wav_missing_file_witness:
  "(\<exists>d. parse_cue None sheet123 = Inr d
       \<and> determine_wav fs_one_flac None (Some [''album'']) [''album'', ''disc.cue''] d
           = Inl (KeyError ''FILE'')
       \<and> determine_wav fs_one_flac None None [''album'', ''disc.cue''] d
           = Inl (KeyError ''FILE''))
   \<and> scan_wav fs_one_flac [''album''] = [[''album'', ''a.flac'']]
   \<and> search_wav fs_one_flac (Some [''album'']) [''album'', ''disc.cue''] = Inr [''album'', ''a.flac'']"
proof -
  from parse_sheet123 obtain d where d: "parse_cue None sheet123 = Inr d"
    by (cases "parse_cue None sheet123") auto
  have n: "\<forall>l\<in>set (split_on newline sheet123). line_key l \<noteq> Some ''FILE''"
    by (simp add: split_sheet123 line_key_examples)
  note w = determine_wav_missing_file [OF d n, of fs_one_flac]
  have "search_wav fs_one_flac (Some [''album'']) [''album'', ''disc.cue''] = Inr [''album'', ''a.flac'']"
    by (simp add: search_wav_def one_flac Let_def resolve_one_flac)
  with d w [of "Some [''album'']" "[''album'', ''disc.cue'']"] w [of None "[''album'', ''disc.cue'']"] one_flac
  show ?thesis by blast
qed

end
